theory Spec2Isabelle
  imports Complex_Main "HOL-Library.Log_Nat"
begin

text \<open>
  A model of the workout engine of \<open>App.tsx\<close>: the exercise catalog, the plan generator
  \<open>getWorkoutForDay\<close>, the session state kept by the \<open>App\<close> component with its event
  handlers and its rest-timer effect, and the values derived from the list of completed
  days. The model follows the later of the two revisions of the file, the one with focus
  categories, phases and the skip buttons; the earlier revision has the same handlers
  with a smaller catalog.
\<close>

section \<open>JavaScript numbers\<close>

text \<open>
  Every value of the TypeScript type \<open>number\<close> is an IEEE-754 double. The model splits
  them in two:
  \<^item> integer-valued quantities (day numbers, indices, counters, millisecond timestamps,
    repetition counts, seconds of rest) are \<open>int\<close> or \<open>nat\<close>; the \<open>+\<close>, \<open>-\<close> and \<open>*\<close> that
    stay among them (an index plus one, a length plus one, a phase times 30) are exact
    in double arithmetic below \<open>2^53\<close>, which every such quantity of the program is;
  \<^item> every operation that can leave the integers (a division, the literals \<open>0.05\<close> and
    \<open>3.8\<close>, products with \<open>met\<close> or the body weight), and the two subtractions whose
    results they take (\<open>day - 1\<close> and the elapsed milliseconds), is computed on \<open>rat\<close> and
    rounded to the nearest double by \<open>fl\<close>, ties to even, 53 bits of precision. The
    exponent of \<open>fl\<close> is not bounded: it never overflows to \<open>Infinity\<close> and has no
    subnormal numbers, so it is IEEE rounding only for results that are zero or of a
    magnitude between \<open>2^-1022\<close> and \<open>2^1024\<close>. Days, lengths, repetitions and
    timestamps stay in that range. The body weight is free input, and a statement
    about the calories bounds it.
  The rest duration is taken in whole seconds, as the sliders of the settings set it.
\<close>

definition rne :: "rat \<Rightarrow> int" where
  \<comment> \<open>round to the nearest integer, ties to the even one\<close>
  "rne y = (let f = \<lfloor>y\<rfloor>; r = y - of_int f in
            if r < 1/2 then f else if 1/2 < r then f + 1 else if even f then f else f + 1)"

definition lg2 :: "rat \<Rightarrow> int" where
  \<comment> \<open>for \<open>x > 0\<close>: the binary exponent \<open>k\<close> with \<open>2^k \<le> x < 2^(k+1)\<close>\<close>
  "lg2 x = (case quotient_of x of (p, q) \<Rightarrow>
             (let k = bitlen p - bitlen q in if 2 powi k \<le> x then k else k - 1))"

definition fl :: "rat \<Rightarrow> rat" where
  \<comment> \<open>the double nearest to \<open>x\<close>: a 53-bit integer significand times a power of two\<close>
  "fl x = (if x = 0 then 0
           else (let e = lg2 \<bar>x\<bar> - 52 in sgn x * of_int (rne (\<bar>x\<bar> / 2 powi e)) * 2 powi e))"

definition fadd :: "rat \<Rightarrow> rat \<Rightarrow> rat" where
  "fadd a b = fl (a + b)"

definition fsub :: "rat \<Rightarrow> rat \<Rightarrow> rat" where
  "fsub a b = fl (a - b)"

definition fmul :: "rat \<Rightarrow> rat \<Rightarrow> rat" where
  "fmul a b = fl (a * b)"

definition fdiv :: "rat \<Rightarrow> rat \<Rightarrow> rat" where
  "fdiv a b = fl (a / b)"

definition Math_round :: "rat \<Rightarrow> int" where
  \<comment> \<open>\<open>Math.round\<close>: the nearest integer, a tie going towards plus infinity\<close>
  "Math_round x = \<lfloor>x + 1/2\<rfloor>"

definition Math_floor :: "rat \<Rightarrow> int" where
  "Math_floor x = \<lfloor>x\<rfloor>"

fun Math_max :: "int list \<Rightarrow> int option" where
  \<comment> \<open>\<open>Math.max(...xs)\<close>; \<open>None\<close> stands for the \<open>-Infinity\<close> of no argument\<close>
  "Math_max [] = None"
| "Math_max (x # xs) = Some (fold max xs x)"

definition js_rem :: "int \<Rightarrow> int \<Rightarrow> int option" where
  \<comment> \<open>\<open>a % b\<close> on integers: the sign of the dividend; \<open>None\<close> stands for \<open>NaN\<close>\<close>
  "js_rem a b = (if b = 0 then None else Some (sgn a * (\<bar>a\<bar> mod \<bar>b\<bar>)))"

definition js_index :: "'a list \<Rightarrow> int option \<Rightarrow> 'a option" where
  \<comment> \<open>\<open>xs[i]\<close>: \<open>None\<close> stands for \<open>undefined\<close>, read out of range or at \<open>NaN\<close>\<close>
  "js_index xs i = (case i of None \<Rightarrow> None
                    | Some j \<Rightarrow> if 0 \<le> j \<and> j < int (length xs) then Some (xs ! nat j) else None)"

definition Set_add :: "'a list \<Rightarrow> 'a \<Rightarrow> 'a list" where
  \<comment> \<open>a \<open>Set\<close> in insertion order; adding a member again changes nothing\<close>
  "Set_add s x = (if x \<in> set s then s else s @ [x])"

definition new_Set :: "'a list \<Rightarrow> 'a list" where
  \<comment> \<open>\<open>[...new Set(xs)]\<close>\<close>
  "new_Set xs = fold (\<lambda>x s. Set_add s x) xs []"

datatype error = TypeError


section \<open>Types and constants of the application\<close>

record Exercise =
  ex_id :: string
  name :: string
  category :: string
  met :: rat
  baseReps :: int

record PlanItem = Exercise +
  reps :: int

record UserData =
  weight :: rat
  onboarded :: bool

record WorkoutConfig =
  sessionDuration :: int
  restDuration :: int

record SessionState =
  isActive :: bool
  currentDay :: int
  currentExerciseIndex :: int
  isResting :: bool
  restTimeLeft :: int
  startTime :: "int option"
  focusCategory :: "string option"

datatype View = Onboarding | Dashboard | Workout | Settings | Summary | Progress

record Stats =
  calories :: int
  duration :: int

text \<open>
  The component state of \<open>App\<close>. Of \<open>UserData\<close> only the fields the engine reads are kept
  (\<open>name\<close>, \<open>height\<close>, \<open>dob\<close> and \<open>gender\<close> are displayed only), and the two theme
  settings are left out.
\<close>

record AppState =
  userData :: UserData
  config :: WorkoutConfig
  completedDays :: "int list"
  view :: View
  lastStats :: "Stats option"
  session :: SessionState

definition CATEGORIES :: "string list" where
  "CATEGORIES = [''Arms & Biceps'', ''Legs'', ''Shoulders'', ''Abs'', ''Back'']"

definition exercise :: "string \<Rightarrow> string \<Rightarrow> string \<Rightarrow> rat \<Rightarrow> int \<Rightarrow> Exercise" where
  \<comment> \<open>one object literal of the catalog; its \<open>met\<close> literal denotes the nearest double\<close>
  "exercise i n c m b = \<lparr>ex_id = i, name = n, category = c, met = fl m, baseReps = b\<rparr>"

definition EXERCISES :: "Exercise list" where
  "EXERCISES =
    [exercise ''e1'' ''Push-ups'' ''Arms & Biceps'' 8.0 10,
     exercise ''e2'' ''Diamond Push-ups'' ''Arms & Biceps'' 8.5 8,
     exercise ''e3'' ''Bicep Curls'' ''Arms & Biceps'' 4.0 15,
     exercise ''e14'' ''Tricep Dips'' ''Arms & Biceps'' 5.0 12,
     exercise ''e15'' ''Hammer Curls'' ''Arms & Biceps'' 4.0 15,
     exercise ''e4'' ''Squats'' ''Legs'' 5.0 15,
     exercise ''e5'' ''Lunges'' ''Legs'' 5.5 12,
     exercise ''e6'' ''Calf Raises'' ''Legs'' 3.5 20,
     exercise ''e16'' ''Bulgarian Split Squats'' ''Legs'' 6.0 10,
     exercise ''e17'' ''Glute Bridges'' ''Legs'' 4.0 15,
     exercise ''e7'' ''Shoulder Taps'' ''Shoulders'' 4.5 20,
     exercise ''e8'' ''Pike Push-ups'' ''Shoulders'' 6.0 8,
     exercise ''e18'' ''Lateral Raises'' ''Shoulders'' 4.0 12,
     exercise ''e19'' ''Front Raises'' ''Shoulders'' 4.0 12,
     exercise ''e9'' ''Crunches'' ''Abs'' 3.8 20,
     exercise ''e10'' ''Plank'' ''Abs'' 4.0 30,
     exercise ''e11'' ''Leg Raises'' ''Abs'' 4.0 12,
     exercise ''e20'' ''Russian Twists'' ''Abs'' 4.5 20,
     exercise ''e21'' ''Mountain Climbers'' ''Abs'' 8.0 30,
     exercise ''e12'' ''Superman'' ''Back'' 4.0 12,
     exercise ''e13'' ''Bird Dog'' ''Back'' 3.5 15,
     exercise ''e22'' ''Reverse Flys'' ''Back'' 4.0 12,
     exercise ''e23'' ''Cat-Cow'' ''Back'' 2.5 10]"

definition INITIAL_USER_DATA :: UserData where
  "INITIAL_USER_DATA = \<lparr>weight = 70, onboarded = False\<rparr>"

definition INITIAL_CONFIG :: WorkoutConfig where
  "INITIAL_CONFIG = \<lparr>sessionDuration = 30, restDuration = 30\<rparr>"


section \<open>Plan generation\<close>

definition intensity :: "int \<Rightarrow> rat" where
  \<comment> \<open>\<open>1 + (day - 1) * 0.05\<close>\<close>
  "intensity day = fadd 1 (fmul (fsub (of_int day) 1) (fl 0.05))"

definition withReps :: "rat \<Rightarrow> Exercise \<Rightarrow> PlanItem" where
  \<comment> \<open>\<open>{ ...base, reps: Math.round(base.baseReps * intensity) }\<close>\<close>
  "withReps i base =
     \<lparr>ex_id = ex_id base, name = name base, category = category base, met = met base,
      baseReps = baseReps base, reps = Math_round (fmul (of_int (baseReps base)) i)\<rparr>"

definition truthy :: "string option \<Rightarrow> bool" where
  \<comment> \<open>an optional string in a condition: \<open>undefined\<close> and the empty string are false\<close>
  "truthy s = (case s of None \<Rightarrow> False | Some c \<Rightarrow> c \<noteq> [])"

definition catExercises :: "string \<Rightarrow> Exercise list" where
  \<comment> \<open>\<open>EXERCISES.filter(e => e.category === cat)\<close>\<close>
  "catExercises cat = filter (\<lambda>e. category e = cat) EXERCISES"

definition pick :: "int \<Rightarrow> string \<Rightarrow> error + PlanItem" where
  \<comment> \<open>the body of \<open>CATEGORIES.map\<close>: reading \<open>base.baseReps\<close> of \<open>undefined\<close> throws\<close>
  "pick day cat =
     (case js_index (catExercises cat) (js_rem day (int (length (catExercises cat)))) of
        None \<Rightarrow> Inl TypeError
      | Some base \<Rightarrow> Inr (withReps (intensity day) base))"

fun traverse :: "('a \<Rightarrow> error + 'b) \<Rightarrow> 'a list \<Rightarrow> error + 'b list" where
  \<comment> \<open>\<open>Array.map\<close> with a callback that may throw: the first exception ends it\<close>
  "traverse f [] = Inr []"
| "traverse f (x # xs) =
     (case f x of Inl e \<Rightarrow> Inl e
      | Inr y \<Rightarrow> (case traverse f xs of Inl e \<Rightarrow> Inl e | Inr ys \<Rightarrow> Inr (y # ys)))"

definition getWorkoutForDay :: "int \<Rightarrow> string option \<Rightarrow> error + PlanItem list" where
  "getWorkoutForDay day focus =
     (if truthy focus
      then Inr (map (withReps (intensity day)) (catExercises (the focus)))
      else traverse (pick day) CATEGORIES)"


section \<open>The completion ledger and what is derived from it\<close>

definition currentPhase :: "int list \<Rightarrow> int" where
  \<comment> \<open>\<open>Math.floor(completedDays.length / 30) + 1\<close>\<close>
  "currentPhase cd = Math_floor (fdiv (of_nat (length cd)) 30) + 1"

definition phaseDayOffset :: "int list \<Rightarrow> int" where
  "phaseDayOffset cd = (currentPhase cd - 1) * 30"

definition phaseProgress :: "int list \<Rightarrow> nat" where
  "phaseProgress cd =
     length (filter (\<lambda>d. d > phaseDayOffset cd \<and> d \<le> phaseDayOffset cd + 30) cd)"

definition recordCompletion :: "int list \<Rightarrow> int \<Rightarrow> int list" where
  \<comment> \<open>the updater \<open>prev => [...new Set([...prev, session.currentDay])]\<close>\<close>
  "recordCompletion prev day = new_Set (prev @ [day])"

text \<open>The cells of the dashboard's grid, \<open>i\<close> running over \<open>Array.from({ length: 30 })\<close>.\<close>

definition gridDay :: "int list \<Rightarrow> nat \<Rightarrow> int" where
  "gridDay cd i = phaseDayOffset cd + int i + 1"

definition isDone :: "int list \<Rightarrow> int \<Rightarrow> bool" where
  "isDone cd day = (day \<in> set cd)"

definition isNext :: "int list \<Rightarrow> int \<Rightarrow> bool" where
  \<comment> \<open>\<open>day === (completedDays.length > 0 ? Math.max(...completedDays) + 1 : 1)\<close>\<close>
  "isNext cd day =
     (if length cd > 0
      then (case Math_max cd of None \<Rightarrow> False | Some m \<Rightarrow> day = m + 1)
      else day = 1)"

definition locked :: "int list \<Rightarrow> int \<Rightarrow> bool" where
  \<comment> \<open>the condition under which the cell renders its LOCKED overlay\<close>
  "locked cd day = (\<not> isDone cd day \<and> \<not> isNext cd day \<and> day > int (length cd) + 1)"


section \<open>The session state machine\<close>

definition initialState :: "UserData \<Rightarrow> WorkoutConfig \<Rightarrow> int list \<Rightarrow> AppState" where
  \<comment> \<open>the \<open>useState\<close> initialisers; the three arguments are what local storage holds\<close>
  "initialState ud cfg cd =
     \<lparr>userData = ud, config = cfg, completedDays = cd,
      view = (if onboarded ud then Dashboard else Onboarding),
      lastStats = None,
      session = \<lparr>isActive = False, currentDay = 1, currentExerciseIndex = 0,
                 isResting = False, restTimeLeft = restDuration cfg, startTime = None,
                 focusCategory = None\<rparr>\<rparr>"

definition currentWorkout :: "AppState \<Rightarrow> error + PlanItem list" where
  "currentWorkout st =
     getWorkoutForDay (currentDay (session st)) (focusCategory (session st))"

definition calculateCalories :: "AppState \<Rightarrow> rat \<Rightarrow> rat \<Rightarrow> rat" where
  \<comment> \<open>\<open>met * userData.weight * (durationSec / 3600)\<close>, multiplied left to right\<close>
  "calculateCalories st m durationSec =
     fmul (fmul m (weight (userData st))) (fdiv durationSec 3600)"

definition totalCals :: "AppState \<Rightarrow> PlanItem list \<Rightarrow> rat" where
  \<comment> \<open>\<open>currentWorkout.reduce((acc, ex) => acc + calculateCalories(ex.met, 60), 0)\<close>\<close>
  "totalCals st cw = foldl (\<lambda>acc ex. fadd acc (calculateCalories st (met ex) 60)) 0 cw"

definition startedAt :: "int \<Rightarrow> SessionState \<Rightarrow> int" where
  \<comment> \<open>\<open>session.startTime || Date.now()\<close>: \<open>null\<close> and \<open>0\<close> are false\<close>
  "startedAt now s =
     (case startTime s of None \<Rightarrow> now | Some t \<Rightarrow> if t = 0 then now else t)"

definition startWorkout :: "int \<Rightarrow> int \<Rightarrow> string option \<Rightarrow> AppState \<Rightarrow> AppState" where
  \<comment> \<open>the first argument is the value of \<open>Date.now()\<close>\<close>
  "startWorkout now day focus st =
     st\<lparr>session := \<lparr>isActive = True, currentDay = day, currentExerciseIndex = 0,
                     isResting = False, restTimeLeft = restDuration (config st),
                     startTime = Some now, focusCategory = focus\<rparr>,
        view := Workout\<rparr>"

definition nextExercise :: "int \<Rightarrow> AppState \<Rightarrow> error + AppState" where
  \<comment> \<open>the handler of COMPLETE PHASE; the first argument is the value of \<open>Date.now()\<close>\<close>
  "nextExercise now st =
     (case currentWorkout st of
        Inl e \<Rightarrow> Inl e
      | Inr cw \<Rightarrow>
          Inr (if currentExerciseIndex (session st) < int (length cw) - 1
               then st\<lparr>session := (session st)\<lparr>isResting := True,
                                                restTimeLeft := restDuration (config st)\<rparr>\<rparr>
               else
                 (let durationMin =
                        Math_floor
                          (fdiv (fsub (of_int now) (of_int (startedAt now (session st)))) 60000)
                  in st\<lparr>lastStats := Some \<lparr>calories = Math_round (totalCals st cw),
                                             duration = durationMin\<rparr>,
                        completedDays :=
                          recordCompletion (completedDays st) (currentDay (session st)),
                        view := Summary,
                        session := (session st)\<lparr>isActive := False\<rparr>\<rparr>)))"

definition skipToNextExercise :: "AppState \<Rightarrow> error + AppState" where
  "skipToNextExercise st =
     (case currentWorkout st of
        Inl e \<Rightarrow> Inl e
      | Inr cw \<Rightarrow>
          Inr (if currentExerciseIndex (session st) < int (length cw) - 1
               then st\<lparr>session := (session st)\<lparr>isResting := False,
                      currentExerciseIndex := currentExerciseIndex (session st) + 1\<rparr>\<rparr>
               else st))"

definition previousExercise :: "AppState \<Rightarrow> AppState" where
  "previousExercise st =
     (if currentExerciseIndex (session st) > 0
      then st\<lparr>session := (session st)\<lparr>isResting := False,
             currentExerciseIndex := currentExerciseIndex (session st) - 1\<rparr>\<rparr>
      else st)"

definition skipRecovery :: "AppState \<Rightarrow> AppState" where
  \<comment> \<open>SKIP RECOVERY: \<open>setSession(p => ({ ...p, restTimeLeft: 0 }))\<close>\<close>
  "skipRecovery st = st\<lparr>session := (session st)\<lparr>restTimeLeft := 0\<rparr>\<rparr>"

definition abort :: "AppState \<Rightarrow> AppState" where
  \<comment> \<open>the ABORT button of the workout view: \<open>setView('dashboard')\<close>\<close>
  "abort st = st\<lparr>view := Dashboard\<rparr>"

text \<open>
  The rest-timer effect runs after every render in which \<open>isActive\<close>, \<open>isResting\<close> or
  \<open>restTimeLeft\<close> changed. Its first branch arms a one-second interval whose callback is
  \<open>tick\<close>; its second branch is \<open>restElapsed\<close>.
\<close>

definition timerArmed :: "AppState \<Rightarrow> bool" where
  "timerArmed st =
     (isActive (session st) \<and> isResting (session st) \<and> restTimeLeft (session st) > 0)"

definition tick :: "AppState \<Rightarrow> AppState" where
  "tick st = st\<lparr>session := (session st)\<lparr>restTimeLeft := restTimeLeft (session st) - 1\<rparr>\<rparr>"

definition restElapsed :: "AppState \<Rightarrow> AppState" where
  "restElapsed st =
     st\<lparr>session := (session st)\<lparr>isResting := False,
        currentExerciseIndex := currentExerciseIndex (session st) + 1\<rparr>\<rparr>"

definition restEffect :: "AppState \<Rightarrow> AppState" where
  \<comment> \<open>the state the effect leaves; in its first branch it only arms the interval\<close>
  "restEffect st =
     (if timerArmed st then st
      else if restTimeLeft (session st) = 0 \<and> isResting (session st) then restElapsed st
      else st)"


section \<open>Events\<close>

text \<open>
  Everything that changes the state: the buttons and inputs each view renders, the
  interval callback and the effect. \<open>enabled\<close> says when the user interface offers the
  event (a button that is rendered and not \<open>disabled\<close>, an armed timer), \<open>fire\<close> is its
  handler. An event is only there when \<open>App\<close> rendered, that is when \<open>currentWorkout\<close>
  did not throw.
\<close>

datatype Event =
    InitializeGrid
  | SetWeight rat
  | Navigate View
  | FocusDay string
  | GridCell nat
  | Resume
  | Abort
  | AdjustRest int
  | Previous
  | CompletePhase
  | SkipNext
  | SkipRecovery
  | Tick
  | RestElapsed
  | ReturnToGrid
  | SetSessionDuration int
  | SetRestDuration int
  | Purge

definition hasTabs :: "View \<Rightarrow> bool" where
  \<comment> \<open>the views that show the navigation bar\<close>
  "hasTabs v = (v = Dashboard \<or> v = Settings \<or> v = Progress)"

fun enabled :: "Event \<Rightarrow> AppState \<Rightarrow> bool" where
  "enabled InitializeGrid st = (view st = Onboarding)"
| "enabled (SetWeight w) st = (view st = Onboarding)"
| "enabled (Navigate v) st = (hasTabs (view st) \<and> hasTabs v)"
| "enabled (FocusDay cat) st = (view st = Dashboard \<and> cat \<in> set CATEGORIES)"
| "enabled (GridCell i) st = (view st = Dashboard \<and> i < 30)"
| "enabled Resume st = (view st = Dashboard)"
| "enabled Abort st = (view st = Workout \<and> \<not> isResting (session st))"
| "enabled (AdjustRest n) st = (view st = Workout \<and> \<not> isResting (session st))"
| "enabled Previous st =
     (view st = Workout \<and> \<not> isResting (session st) \<and> currentExerciseIndex (session st) \<noteq> 0)"
| "enabled CompletePhase st = (view st = Workout \<and> \<not> isResting (session st))"
| "enabled SkipNext st =
     (view st = Workout \<and> \<not> isResting (session st) \<and>
      (case currentWorkout st of Inl e \<Rightarrow> False
       | Inr cw \<Rightarrow> currentExerciseIndex (session st) \<noteq> int (length cw) - 1))"
| "enabled SkipRecovery st = (view st = Workout \<and> isResting (session st))"
| "enabled Tick st = timerArmed st"
| "enabled RestElapsed st =
     (\<not> timerArmed st \<and> restTimeLeft (session st) = 0 \<and> isResting (session st))"
| "enabled ReturnToGrid st = (view st = Summary)"
| "enabled (SetSessionDuration n) st = (view st = Settings)"
| "enabled (SetRestDuration n) st = (view st = Settings)"
| "enabled Purge st = (view st = Settings)"

fun handler :: "int \<Rightarrow> Event \<Rightarrow> AppState \<Rightarrow> error + AppState" where
  "handler now InitializeGrid st =
     Inr (st\<lparr>userData := (userData st)\<lparr>onboarded := True\<rparr>, view := Dashboard\<rparr>)"
| "handler now (SetWeight w) st = Inr (st\<lparr>userData := (userData st)\<lparr>weight := w\<rparr>\<rparr>)"
| "handler now (Navigate v) st = Inr (st\<lparr>view := v\<rparr>)"
| "handler now (FocusDay cat) st =
     Inr (startWorkout now (int (length (completedDays st)) + 1) (Some cat) st)"
| "handler now (GridCell i) st =
     Inr (startWorkout now (gridDay (completedDays st) i) None st)"
| "handler now Resume st =
     Inr (startWorkout now (int (length (completedDays st)) + 1) None st)"
| "handler now Abort st = Inr (abort st)"
| "handler now (AdjustRest n) st = Inr (st\<lparr>config := (config st)\<lparr>restDuration := n\<rparr>\<rparr>)"
| "handler now Previous st = Inr (previousExercise st)"
| "handler now CompletePhase st = nextExercise now st"
| "handler now SkipNext st = skipToNextExercise st"
| "handler now SkipRecovery st = Inr (skipRecovery st)"
| "handler now Tick st = Inr (tick st)"
| "handler now RestElapsed st = Inr (restElapsed st)"
| "handler now ReturnToGrid st = Inr (st\<lparr>view := Dashboard\<rparr>)"
| "handler now (SetSessionDuration n) st =
     Inr (st\<lparr>config := (config st)\<lparr>sessionDuration := n\<rparr>\<rparr>)"
| "handler now (SetRestDuration n) st =
     Inr (st\<lparr>config := (config st)\<lparr>restDuration := n\<rparr>\<rparr>)"
| "handler now Purge st = Inr (initialState INITIAL_USER_DATA INITIAL_CONFIG [])"

definition fire :: "int \<Rightarrow> Event \<Rightarrow> AppState \<Rightarrow> error + AppState" where
  "fire now ev st = (case currentWorkout st of Inl e \<Rightarrow> Inl e | Inr cw \<Rightarrow> handler now ev st)"

inductive reachable :: "AppState \<Rightarrow> bool" where
  start: "reachable (initialState ud cfg cd)"
| step: "reachable st \<Longrightarrow> enabled ev st \<Longrightarrow> fire now ev st = Inr st' \<Longrightarrow> reachable st'"


section \<open>Well-formed sessions\<close>

text \<open>
  What every reachable state satisfies: the plan of the session exists, the index points
  into it, and a rest is only ever running before the last exercise.
\<close>

definition validFocus :: "string option \<Rightarrow> bool" where
  "validFocus f = (case f of None \<Rightarrow> True | Some c \<Rightarrow> c \<in> set CATEGORIES)"

definition sessionInv :: "AppState \<Rightarrow> bool" where
  "sessionInv st =
     (0 \<le> currentDay (session st) \<and> validFocus (focusCategory (session st)) \<and>
      (case currentWorkout st of Inl e \<Rightarrow> False
       | Inr cw \<Rightarrow>
           0 \<le> currentExerciseIndex (session st) \<and>
           currentExerciseIndex (session st) < int (length cw) \<and>
           (isResting (session st) \<longrightarrow> currentExerciseIndex (session st) < int (length cw) - 1)))"


section \<open>Example states\<close>

text \<open>
  A workout in progress for a user of 65 kg with the default configuration, started at
  time 1000 without a focus category, and the plan \<open>getWorkoutForDay\<close> returns for a day
  when it does not throw.
\<close>

definition exampleSession :: "int \<Rightarrow> int \<Rightarrow> bool \<Rightarrow> int \<Rightarrow> AppState" where
  "exampleSession day i resting rest =
     \<lparr>userData = \<lparr>weight = 65, onboarded = True\<rparr>, config = INITIAL_CONFIG,
      completedDays = [], view = Workout, lastStats = None,
      session = \<lparr>isActive = True, currentDay = day, currentExerciseIndex = i,
                 isResting = resting, restTimeLeft = rest, startTime = Some 1000,
                 focusCategory = None\<rparr>\<rparr>"

definition noFocusPlan :: "int \<Rightarrow> PlanItem list" where
  "noFocusPlan day =
     map (\<lambda>cat. withReps (intensity day)
                  (catExercises cat ! nat (day mod int (length (catExercises cat))))) CATEGORIES"


section \<open>The calories in exact arithmetic\<close>

text \<open>
  The sum \<open>met * weight * (60 / 3600)\<close> over a plan with every operation exact, to compare
  with \<open>totalCals\<close>, which rounds each one to a double.
\<close>

definition spec_calories :: "rat \<Rightarrow> PlanItem list \<Rightarrow> rat" where
  \<comment> \<open>the sum of the claim, taken in exact arithmetic\<close>
  "spec_calories w cw = (\<Sum>ex\<leftarrow>cw. met ex * w * (60 / 3600))"


section \<open>Rounding to a double\<close>

lemma rne_lower: "\<lfloor>y\<rfloor> \<le> rne y"
  by (simp add: rne_def Let_def)

lemma rne_upper: "of_int (rne y) \<le> y + 1/2"
proof -
  have "of_int \<lfloor>y\<rfloor> \<le> y" by simp
  then show ?thesis
    by (auto simp: rne_def Let_def simp del: of_int_floor_le; linarith)
qed

lemma rne_of_int: "rne (of_int n) = n"
  by (simp add: rne_def)

lemma bitlen_powi:
  assumes "0 < (p::int)"
  shows "2 powi (bitlen p - 1) \<le> (of_int p :: rat)" and "(of_int p :: rat) < 2 powi bitlen p"
proof -
  have b: "2 ^ nat (bitlen p - 1) \<le> p" "p < 2 ^ nat (bitlen p)"
    using bitlen_bounds [OF assms] by simp_all
  have ge1: "1 \<le> bitlen p"
    using assms bitlen_eq_zero_iff [of p] bitlen_nonneg [of p] by linarith
  have "(of_int (2 ^ nat (bitlen p - 1)) :: rat) \<le> of_int p"
    using b(1) by (simp only: of_int_le_iff)
  then show "2 powi (bitlen p - 1) \<le> (of_int p :: rat)"
    using ge1 by (simp add: power_int_def)
  have "(of_int p :: rat) < of_int (2 ^ nat (bitlen p))"
    using b(2) by (simp only: of_int_less_iff)
  then show "(of_int p :: rat) < 2 powi bitlen p"
    using ge1 by (simp add: power_int_def)
qed

text \<open>\<open>lg2\<close> is the binary exponent: the bit lengths of numerator and denominator miss it
  by at most one, and the comparison in \<open>lg2\<close> settles which.\<close>

lemma lg2_bounds:
  assumes "0 < x"
  shows "2 powi lg2 x \<le> x \<and> x < 2 powi (lg2 x + 1)"
proof -
  obtain p q where pq: "quotient_of x = (p, q)" by (cases "quotient_of x")
  have q: "0 < q" using pq by (rule quotient_of_denom_pos)
  have x: "x = of_int p / of_int q" using pq by (rule quotient_of_div)
  have p: "0 < p" using assms q x by (simp add: zero_less_divide_iff)
  define k where "k = bitlen p - bitlen q"
  have "2 powi (bitlen p - 1) / 2 powi bitlen q \<le> (of_int p :: rat) / of_int q"
    using bitlen_powi [OF p] bitlen_powi [OF q] q p
    by (intro frac_le) simp_all
  then have lo: "2 powi (k - 1) \<le> x"
    by (simp add: x k_def power_int_diff)
  have "(of_int p :: rat) / of_int q < 2 powi bitlen p / 2 powi (bitlen q - 1)"
    using bitlen_powi [OF p] bitlen_powi [OF q] q p
    by (intro frac_less) simp_all
  moreover have "(2::rat) powi (k + 1) = 2 powi bitlen p / 2 powi (bitlen q - 1)"
    using power_int_diff [of "2::rat" "bitlen p" "bitlen q - 1"] by (simp add: k_def algebra_simps)
  ultimately have hi: "x < 2 powi (k + 1)"
    by (simp only: x)
  have "lg2 x = (if 2 powi k \<le> x then k else k - 1)"
    by (simp add: lg2_def pq k_def Let_def)
  then show ?thesis
    using lo hi by (auto simp: not_le simp del: power_int_add_numeral power_int_add_numeral2)
qed

lemma powi2_less_cancel: "(2::rat) powi a < 2 powi b \<Longrightarrow> a < b"
  using power_int_increasing [of b a "2::rat"] by (cases "a < b") auto

lemma fl_pos:
  assumes "0 < x"
  shows "fl x = of_int (rne (x / 2 powi (lg2 x - 52))) * 2 powi (lg2 x - 52)"
  using assms by (simp add: fl_def Let_def)

lemma fl_nonneg:
  assumes "0 \<le> x"
  shows "0 \<le> fl x"
proof (cases "x = 0")
  case True
  then show ?thesis by (simp add: fl_def)
next
  case False
  then have xpos: "0 < x" using assms by simp
  have "0 \<le> x / 2 powi (lg2 x - 52)" using assms by simp
  then have "0 \<le> \<lfloor>x / 2 powi (lg2 x - 52)\<rfloor>" by simp
  then have "0 \<le> rne (x / 2 powi (lg2 x - 52))"
    using rne_lower [of "x / 2 powi (lg2 x - 52)"] by linarith
  then show ?thesis
    by (simp add: fl_pos [OF xpos])
qed

text \<open>An integer below \<open>2^53\<close> is a double.\<close>

lemma fl_of_int:
  assumes "\<bar>n\<bar> < 2 ^ 53"
  shows "fl (of_int n) = of_int n"
proof (cases "n = 0")
  case True
  then show ?thesis by (simp add: fl_def)
next
  case False
  define x :: rat where "x = of_int \<bar>n\<bar>"
  have xpos: "0 < x" using False by (simp add: x_def)
  define e where "e = lg2 x - 52"
  have b: "2 powi (e + 52) \<le> x"
    using lg2_bounds [OF xpos] by (simp add: e_def)
  have "x < of_int (2 ^ 53)"
    unfolding x_def using assms by (simp only: of_int_less_iff)
  then have "x < 2 powi 53" by simp
  with b have "(2::rat) powi (e + 52) < 2 powi 53" by simp
  then have "e + 52 < 53" by (rule powi2_less_cancel)
  then have e0: "e \<le> 0" by simp
  have "x / 2 powi e = x * 2 ^ nat (- e)"
    using e0 by (simp add: power_int_def field_simps)
  also have "\<dots> = of_int (\<bar>n\<bar> * 2 ^ nat (- e))"
    by (simp add: x_def)
  finally have "rne (x / 2 powi e) = \<bar>n\<bar> * 2 ^ nat (- e)"
    by (simp only: rne_of_int)
  then have "of_int (rne (x / 2 powi e)) * 2 powi e = x"
    using e0 by (simp add: x_def power_int_def field_simps)
  moreover have "fl (of_int n) = sgn (of_int n) * of_int (rne (x / 2 powi e)) * 2 powi e"
    using False by (simp add: fl_def Let_def x_def e_def)
  ultimately have "fl (of_int n) = sgn (of_int n) * x"
    by (simp add: mult.assoc)
  moreover have "x = \<bar>of_int n\<bar>" by (simp add: x_def)
  ultimately show ?thesis
    by (simp only: sgn_mult_abs)
qed

text \<open>
  \<open>Math.floor(k / d)\<close> is the integer quotient: the rounded quotient cannot reach the
  next integer, which is at least \<open>1/d\<close> away while the rounding error is below
  \<open>k / (d * 2^53)\<close>, and it cannot fall below \<open>k div d\<close>, which is itself a multiple of
  the unit in the last place.
\<close>

lemma floor_fl_div:
  assumes "0 \<le> k" "k < 2 ^ 53" "0 < d"
  shows "\<lfloor>fl (of_int k / of_int d)\<rfloor> = k div d"
proof (cases "k = 0")
  case True
  then show ?thesis by (simp add: fl_def)
next
  case False
  define x :: rat where "x = of_int k / of_int d"
  define n where "n = k div d"
  have kpos: "0 < k" using False assms(1) by simp
  have xpos: "0 < x" using kpos assms(3) by (simp add: x_def)
  define e where "e = lg2 x - 52"
  define y where "y = x / 2 powi e"
  have b: "2 powi (e + 52) \<le> x"
    using lg2_bounds [OF xpos] by (simp add: e_def algebra_simps)
  have flx: "fl x = of_int (rne y) * 2 powi e"
    using fl_pos [OF xpos] by (simp add: y_def e_def)
  have pe: "(0::rat) < 2 powi e" by simp
  have xk: "x \<le> of_int k"
    using kpos assms(3) by (simp add: x_def field_simps mult_le_cancel_left1)
  have k53: "of_int k < (of_int (2 ^ 53) :: rat)"
    using assms(2) by (simp only: of_int_less_iff)
  with xk have "x < 2 powi 53" by simp
  with b have "(2::rat) powi (e + 52) < 2 powi 53" by simp
  then have "e + 52 < 53" by (rule powi2_less_cancel)
  then have e0: "e \<le> 0" by simp
  have km: "k = d * n + k mod d" "0 \<le> k mod d" "k mod d < d"
    using assms(3) by (simp_all add: n_def)
  have "d * n \<le> k"
    using km by linarith
  then have "(of_int (d * n) :: rat) \<le> of_int k"
    by (simp only: of_int_le_iff)
  then have nx: "of_int n \<le> x"
    using assms(3) by (simp add: x_def field_simps)
  have x1: "x + 1 / of_int d \<le> of_int n + 1"
  proof -
    have "k + 1 \<le> d * (n + 1)"
      using km by (simp add: algebra_simps)
    then have "(of_int (k + 1) :: rat) \<le> of_int (d * (n + 1))"
      by (simp only: of_int_le_iff)
    then show ?thesis
      using assms(3) by (simp add: x_def field_simps)
  qed
  have lower: "of_int n \<le> fl x"
  proof -
    have "of_int n / 2 powi e \<le> y"
      unfolding y_def using nx pe by (simp add: divide_right_mono)
    moreover have "of_int n / 2 powi e = (of_int (n * 2 ^ nat (- e)) :: rat)"
      using e0 by (simp add: power_int_def field_simps)
    ultimately have "n * 2 ^ nat (- e) \<le> \<lfloor>y\<rfloor>"
      by (simp add: le_floor_iff)
    then have "n * 2 ^ nat (- e) \<le> rne y"
      using rne_lower [of y] by linarith
    then have "(of_int (n * 2 ^ nat (- e)) :: rat) \<le> of_int (rne y)"
      by (simp only: of_int_le_iff)
    then have A: "(of_int (n * 2 ^ nat (- e)) :: rat) * 2 powi e \<le> of_int (rne y) * 2 powi e"
      using pe by (simp only: mult_le_cancel_right_pos)
    have B: "(of_int (n * 2 ^ nat (- e)) :: rat) * 2 powi e = of_int n"
      using e0 by (simp add: power_int_def field_simps)
    show ?thesis
      unfolding flx by (rule ord_eq_le_trans [OF B [symmetric] A])
  qed
  have upper: "fl x < of_int n + 1"
  proof -
    have "fl x \<le> (y + 1 / 2) * 2 powi e"
      unfolding flx using rne_upper [of y] pe by (simp only: mult_le_cancel_right_pos)
    also have "\<dots> = x + 2 powi e / 2"
      by (simp add: y_def algebra_simps)
    finally have 1: "fl x \<le> x + 2 powi e / 2" .
    have "2 powi e * 2 ^ 52 \<le> x"
      using b by (simp add: power_int_add)
    then have 2: "2 powi e / 2 \<le> x / 2 ^ 53" by simp
    have "x / 2 ^ 53 < 1 / of_int d"
    proof -
      have "(of_int k :: rat) < 2 ^ 53"
        using k53 by simp
      then show ?thesis
        using assms(3) by (simp add: x_def field_simps)
    qed
    with 1 2 x1 show ?thesis by linarith
  qed
  have "\<lfloor>fl x\<rfloor> = n"
    using lower upper by (simp add: floor_unique)
  then show ?thesis by (simp add: x_def n_def)
qed

lemma Math_round_of_int: "Math_round (of_int n) = n"
  unfolding Math_round_def by (rule floor_unique) simp_all


section \<open>The catalog and the generated plan\<close>

lemma catExercises_Arms:
  "catExercises ''Arms & Biceps'' =
     [exercise ''e1'' ''Push-ups'' ''Arms & Biceps'' 8.0 10,
      exercise ''e2'' ''Diamond Push-ups'' ''Arms & Biceps'' 8.5 8,
      exercise ''e3'' ''Bicep Curls'' ''Arms & Biceps'' 4.0 15,
      exercise ''e14'' ''Tricep Dips'' ''Arms & Biceps'' 5.0 12,
      exercise ''e15'' ''Hammer Curls'' ''Arms & Biceps'' 4.0 15]"
  by (simp add: catExercises_def EXERCISES_def exercise_def)

lemma catExercises_Legs:
  "catExercises ''Legs'' =
     [exercise ''e4'' ''Squats'' ''Legs'' 5.0 15,
      exercise ''e5'' ''Lunges'' ''Legs'' 5.5 12,
      exercise ''e6'' ''Calf Raises'' ''Legs'' 3.5 20,
      exercise ''e16'' ''Bulgarian Split Squats'' ''Legs'' 6.0 10,
      exercise ''e17'' ''Glute Bridges'' ''Legs'' 4.0 15]"
  by (simp add: catExercises_def EXERCISES_def exercise_def)

lemma catExercises_Shoulders:
  "catExercises ''Shoulders'' =
     [exercise ''e7'' ''Shoulder Taps'' ''Shoulders'' 4.5 20,
      exercise ''e8'' ''Pike Push-ups'' ''Shoulders'' 6.0 8,
      exercise ''e18'' ''Lateral Raises'' ''Shoulders'' 4.0 12,
      exercise ''e19'' ''Front Raises'' ''Shoulders'' 4.0 12]"
  by (simp add: catExercises_def EXERCISES_def exercise_def)

lemma catExercises_Abs:
  "catExercises ''Abs'' =
     [exercise ''e9'' ''Crunches'' ''Abs'' 3.8 20,
      exercise ''e10'' ''Plank'' ''Abs'' 4.0 30,
      exercise ''e11'' ''Leg Raises'' ''Abs'' 4.0 12,
      exercise ''e20'' ''Russian Twists'' ''Abs'' 4.5 20,
      exercise ''e21'' ''Mountain Climbers'' ''Abs'' 8.0 30]"
  by (simp add: catExercises_def EXERCISES_def exercise_def)

lemma catExercises_Back:
  "catExercises ''Back'' =
     [exercise ''e12'' ''Superman'' ''Back'' 4.0 12,
      exercise ''e13'' ''Bird Dog'' ''Back'' 3.5 15,
      exercise ''e22'' ''Reverse Flys'' ''Back'' 4.0 12,
      exercise ''e23'' ''Cat-Cow'' ''Back'' 2.5 10]"
  by (simp add: catExercises_def EXERCISES_def exercise_def)

lemmas catExercises_simps =
  catExercises_Arms catExercises_Legs catExercises_Shoulders catExercises_Abs catExercises_Back

lemma catExercises_nonempty:
  assumes "cat \<in> set CATEGORIES"
  shows "0 < length (catExercises cat)"
  using assms by (auto simp: CATEGORIES_def catExercises_simps)

lemma category_catExercises:
  assumes "e \<in> set (catExercises cat)"
  shows "category e = cat"
  using assms by (simp add: catExercises_def)

lemma js_rem_nonneg:
  assumes "0 \<le> a" "0 < b"
  shows "js_rem a b = Some (a mod b)"
  using assms by (cases "a = 0") (simp_all add: js_rem_def)

lemma pick_ok:
  assumes "0 \<le> day" "cat \<in> set CATEGORIES"
  shows "pick day cat =
           Inr (withReps (intensity day)
                  (catExercises cat ! nat (day mod int (length (catExercises cat)))))"
proof -
  have n: "0 < int (length (catExercises cat))"
    using catExercises_nonempty [OF assms(2)] by simp
  then have "day mod int (length (catExercises cat)) < int (length (catExercises cat))"
    by (rule pos_mod_bound)
  moreover have "0 \<le> day mod int (length (catExercises cat))"
    using n by (rule pos_mod_sign)
  ultimately show ?thesis
    using n by (simp add: pick_def js_rem_nonneg [OF assms(1) n] js_index_def)
qed

lemma traverse_Inr:
  assumes "\<And>x. x \<in> set xs \<Longrightarrow> f x = Inr (g x)"
  shows "traverse f xs = Inr (map g xs)"
  using assms by (induction xs) simp_all

lemma getWorkoutForDay_None:
  assumes "0 \<le> day"
  shows "getWorkoutForDay day None =
           Inr (map (\<lambda>cat. withReps (intensity day)
                      (catExercises cat ! nat (day mod int (length (catExercises cat)))))
                  CATEGORIES)"
  unfolding getWorkoutForDay_def
  by (simp add: truthy_def traverse_Inr [OF pick_ok [OF assms]])

lemma getWorkoutForDay_focus:
  assumes "cat \<in> set CATEGORIES"
  shows "getWorkoutForDay day (Some cat) = Inr (map (withReps (intensity day)) (catExercises cat))"
  using assms by (auto simp: getWorkoutForDay_def truthy_def CATEGORIES_def)

lemma intensity_1: "intensity 1 = 1"
  using fl_of_int [of 1] by (simp add: intensity_def fadd_def fmul_def fsub_def fl_def [of 0])

lemma baseReps_small:
  assumes "e \<in> set (catExercises cat)"
  shows "\<bar>baseReps e\<bar> < 2 ^ 53"
proof -
  have "e \<in> set EXERCISES" using assms by (simp add: catExercises_def)
  then show ?thesis
    by (auto simp: EXERCISES_def exercise_def)
qed

lemma baseReps_range:
  assumes "e \<in> set (catExercises cat)"
  shows "0 < baseReps e \<and> baseReps e \<le> 30"
proof -
  have "e \<in> set EXERCISES" using assms by (simp add: catExercises_def)
  then show ?thesis
    by (auto simp: EXERCISES_def exercise_def)
qed

lemma reps_withReps_1:
  assumes "e \<in> set (catExercises cat)"
  shows "reps (withReps 1 e) = baseReps e"
  using fl_of_int [OF baseReps_small [OF assms]] by (simp add: withReps_def fmul_def Math_round_of_int)

lemma nth_catExercises:
  assumes "cat \<in> set CATEGORIES"
  shows "catExercises cat ! nat (day mod int (length (catExercises cat))) \<in> set (catExercises cat)"
proof -
  have n: "0 < int (length (catExercises cat))"
    using catExercises_nonempty [OF assms] by simp
  have "day mod int (length (catExercises cat)) < int (length (catExercises cat))"
    using n by (rule pos_mod_bound)
  moreover have "0 \<le> day mod int (length (catExercises cat))"
    using n by (rule pos_mod_sign)
  ultimately have "nat (day mod int (length (catExercises cat))) < length (catExercises cat)"
    by linarith
  then show ?thesis by (rule nth_mem)
qed

lemma plan_ok:
  assumes "0 \<le> day" "validFocus f"
  shows "\<exists>cw. getWorkoutForDay day f = Inr cw \<and> 0 < length cw"
proof (cases f)
  case None
  then show ?thesis
    by (simp add: getWorkoutForDay_None [OF assms(1)] CATEGORIES_def)
next
  case (Some c)
  then have c: "c \<in> set CATEGORIES" using assms(2) by (simp add: validFocus_def)
  show ?thesis
    using catExercises_nonempty [OF c] by (simp add: Some getWorkoutForDay_focus [OF c])
qed

text \<open>Day 319, evaluated operation by operation.\<close>

lemma fl_0_05: "fl 0.05 = 3602879701896397 / 72057594037927936"
  by code_simp

lemma intensity_319: "intensity 319 = 2378463553205043 / 140737488355328"
  unfolding intensity_def fadd_def fmul_def fsub_def fl_0_05 by code_simp

lemma reps_319: "Math_round (fmul 15 (2378463553205043 / 140737488355328)) = 253"
  unfolding fmul_def by code_simp

text \<open>
  The error of the rounded product. Each operation is off by at most its result times
  \<open>2^-53\<close>; over the four operations of \<open>baseReps * (1 + (day - 1) * 0.05)\<close> that stays
  below \<open>1/20\<close> for every catalog exercise and every day below \<open>2^40\<close>. The exact product
  is a multiple of \<open>1/20\<close>, so unless it is a half-integer the rounded product rounds to
  the same integer.
\<close>

lemma rne_lower_half: "y - 1/2 \<le> of_int (rne y)"
proof -
  have "y < of_int \<lfloor>y\<rfloor> + 1" by linarith
  then show ?thesis
    by (auto simp: rne_def Let_def; linarith)
qed

lemma fl_neg: "fl (- x) = - fl x"
  by (simp add: fl_def Let_def)

lemma fl_error_pos:
  assumes "0 < x"
  shows "\<bar>fl x - x\<bar> \<le> x / 2 ^ 53"
proof -
  define e where "e = lg2 x - 52"
  define y where "y = x / 2 powi e"
  have pe: "(0::rat) < 2 powi e" by simp
  have b: "2 powi (e + 52) \<le> x"
    using lg2_bounds [OF assms] by (simp add: e_def algebra_simps)
  have flx: "fl x = of_int (rne y) * 2 powi e"
    using fl_pos [OF assms] by (simp add: y_def e_def)
  have "\<bar>of_int (rne y) - y\<bar> \<le> 1 / 2"
    using rne_lower_half [of y] rne_upper [of y] by linarith
  then have "\<bar>of_int (rne y) - y\<bar> * 2 powi e \<le> 1 / 2 * 2 powi e"
    using pe by (simp only: mult_le_cancel_right_pos)
  moreover have "\<bar>fl x - x\<bar> = \<bar>of_int (rne y) - y\<bar> * 2 powi e"
  proof -
    have "y * 2 powi e = x" by (simp add: y_def)
    then have "fl x - x = (of_int (rne y) - y) * 2 powi e"
      unfolding flx by (simp add: algebra_simps)
    then show ?thesis
      using pe by (simp add: abs_mult)
  qed
  ultimately have 1: "\<bar>fl x - x\<bar> \<le> 2 powi e / 2" by simp
  have "2 powi e * 2 ^ 52 \<le> x"
    using b by (simp add: power_int_add)
  then have "2 powi e / 2 \<le> x / 2 ^ 53" by simp
  with 1 show ?thesis by linarith
qed

lemma fl_error: "\<bar>fl x - x\<bar> \<le> \<bar>x\<bar> / 2 ^ 53"
proof -
  consider "x = 0" | "0 < x" | "x < 0" by linarith
  then show ?thesis
  proof cases
    case 1
    then show ?thesis by (simp add: fl_def)
  next
    case 2
    then show ?thesis using fl_error_pos [OF 2] by simp
  next
    case 3
    then have "0 < - x" by simp
    from fl_error_pos [OF this] have "\<bar>- fl x + x\<bar> \<le> - x / 2 ^ 53"
      by (simp add: fl_neg)
    moreover have "\<bar>- fl x + x\<bar> = \<bar>fl x - x\<bar>" by linarith
    ultimately show ?thesis using 3 by simp
  qed
qed

lemma reps_error:
  assumes "0 \<le> k" "k < 2 ^ 40" "0 < b" "b \<le> 30"
  shows "\<bar>fl (of_int b * fl (1 + fl (of_int k * fl 0.05))) - of_int b * (1 + of_int k / 20)\<bar>
           < 1 / 20"
proof -
  define K :: rat where "K = of_int k"
  define B :: rat where "B = of_int b"
  define c where "c = fl 0.05"
  define p where "p = fl (K * c)"
  define s where "s = fl (1 + p)"
  define r where "r = fl (B * s)"
  have K: "0 \<le> K" "K \<le> 1099511627776"
  proof -
    show "0 \<le> K" using assms(1) by (simp add: K_def)
    have "(of_int k :: rat) \<le> of_int (2 ^ 40)"
      using assms(2) by (simp only: of_int_le_iff)
    then show "K \<le> 1099511627776" by (simp add: K_def)
  qed
  have B: "0 \<le> B" "B \<le> 32"
    using assms(3,4) by (simp_all add: B_def)
  have c: "\<bar>c - 1 / 20\<bar> \<le> 1 / 2 ^ 57" "0 \<le> c" "c \<le> 1 / 16"
    unfolding c_def fl_0_05 by simp_all
  have Kc: "0 \<le> K * c" "K * c \<le> 68719476736"
  proof -
    show "0 \<le> K * c" using K(1) c(2) by simp
    have "K * c \<le> 1099511627776 * (1 / 16)"
      using K c by (intro mult_mono) simp_all
    then show "K * c \<le> 68719476736" by simp
  qed
  have e1: "\<bar>K * c - K / 20\<bar> \<le> 1 / 131072"
  proof -
    have "K * c - K / 20 = K * (c - 1 / 20)"
      by (simp add: algebra_simps)
    then have "\<bar>K * c - K / 20\<bar> = K * \<bar>c - 1 / 20\<bar>"
      using K(1) by (simp only: abs_mult abs_of_nonneg)
    also have "\<dots> \<le> 1099511627776 * (1 / 2 ^ 57)"
      using K c(1) by (intro mult_mono) simp_all
    also have "\<dots> = 1 / 131072"
      by simp
    finally show ?thesis .
  qed
  have e2: "\<bar>p - K * c\<bar> \<le> 1 / 131072"
  proof -
    have "\<bar>p - K * c\<bar> \<le> \<bar>K * c\<bar> / 2 ^ 53"
      unfolding p_def by (rule fl_error)
    also have "\<dots> \<le> 68719476736 / 2 ^ 53"
      using Kc by (intro divide_right_mono) simp_all
    also have "\<dots> = 1 / 131072"
      by simp
    finally show ?thesis .
  qed
  have e12: "\<bar>p - K / 20\<bar> \<le> 1 / 65536"
    using e1 e2 by linarith
  have p1: "0 \<le> 1 + p" "1 + p \<le> 137438953472"
    using e2 Kc by linarith+
  have e3: "\<bar>s - (1 + p)\<bar> \<le> 1 / 65536"
  proof -
    have "\<bar>s - (1 + p)\<bar> \<le> \<bar>1 + p\<bar> / 2 ^ 53"
      unfolding s_def by (rule fl_error)
    also have "\<dots> \<le> 137438953472 / 2 ^ 53"
      using p1 by (intro divide_right_mono) simp_all
    also have "\<dots> = 1 / 65536"
      by simp
    finally show ?thesis .
  qed
  have e123: "\<bar>s - (1 + K / 20)\<bar> \<le> 1 / 32768"
    using e12 e3 by linarith
  have s1: "0 \<le> s" "s \<le> 137438953472"
    using e123 K by linarith+
  have Bs: "0 \<le> B * s" "B * s \<le> 4398046511104"
  proof -
    show "0 \<le> B * s" using B(1) s1(1) by simp
    have "B * s \<le> 32 * 137438953472"
      using B s1 by (intro mult_mono) simp_all
    then show "B * s \<le> 4398046511104" by simp
  qed
  have e4: "\<bar>r - B * s\<bar> \<le> 1 / 2048"
  proof -
    have "\<bar>r - B * s\<bar> \<le> \<bar>B * s\<bar> / 2 ^ 53"
      unfolding r_def by (rule fl_error)
    also have "\<dots> \<le> 4398046511104 / 2 ^ 53"
      using Bs by (intro divide_right_mono) simp_all
    also have "\<dots> = 1 / 2048"
      by simp
    finally show ?thesis .
  qed
  have e5: "\<bar>B * s - B * (1 + K / 20)\<bar> \<le> 1 / 1024"
  proof -
    have "B * s - B * (1 + K / 20) = B * (s - (1 + K / 20))"
      by (simp add: algebra_simps)
    then have "\<bar>B * s - B * (1 + K / 20)\<bar> = B * \<bar>s - (1 + K / 20)\<bar>"
      using B(1) by (simp only: abs_mult abs_of_nonneg)
    also have "\<dots> \<le> 32 * (1 / 32768)"
      using B e123 by (intro mult_mono) simp_all
    also have "\<dots> = 1 / 1024"
      by simp
    finally show ?thesis .
  qed
  have "\<bar>r - B * (1 + K / 20)\<bar> < 1 / 20"
    using e4 e5 by linarith
  then show ?thesis
    by (simp add: r_def s_def p_def c_def K_def B_def)
qed

lemma round_stable:
  fixes E r :: rat
  assumes "of_int m = 20 * E" "m mod 20 \<noteq> 10" "\<bar>r - E\<bar> < 1 / 20"
  shows "\<lfloor>r + 1 / 2\<rfloor> = \<lfloor>E + 1 / 2\<rfloor>"
proof -
  define n where "n = (m + 10) div 20"
  define q where "q = (m + 10) mod 20"
  have q: "0 \<le> q" "q < 20" "m + 10 = 20 * n + q"
    by (simp_all add: q_def n_def)
  have "q \<noteq> 0"
    using assms(2) unfolding q_def by presburger
  with q have q1: "1 \<le> q" "q \<le> 19" by simp_all
  have "(of_int (m + 10) :: rat) = of_int (20 * n + q)"
    using q(3) by simp
  then have E: "E + 1 / 2 = of_int n + of_int q / 20"
    using assms(1) by simp
  have qr: "(1::rat) \<le> of_int q" "(of_int q :: rat) \<le> 19"
    using q1 by simp_all
  have q20: "(1::rat) / 20 \<le> of_int q / 20" "(of_int q :: rat) / 20 \<le> 19 / 20"
    using qr by simp_all
  have "of_int n \<le> E + 1 / 2" "E + 1 / 2 < of_int n + 1"
    using E q20 by linarith+
  then have 1: "\<lfloor>E + 1 / 2\<rfloor> = n" by (rule floor_unique)
  have r: "E - 1 / 20 < r" "r < E + 1 / 20"
    using assms(3) by linarith+
  have "of_int n \<le> r + 1 / 2" "r + 1 / 2 < of_int n + 1"
    using E q20 r by linarith+
  then have "\<lfloor>r + 1 / 2\<rfloor> = n" by (rule floor_unique)
  with 1 show ?thesis by simp
qed

lemma reps_exact:
  assumes "1 \<le> day" "day < 2 ^ 40" "0 < b" "b \<le> 30" "(b * (day + 19)) mod 20 \<noteq> 10"
  shows "Math_round (fl (of_int b * fl (1 + fl (fl (of_int day - 1) * fl 0.05)))) =
           round (of_int b * (1 + (of_int day - 1) * 0.05) :: rat)"
proof -
  define k where "k = day - 1"
  have k: "0 \<le> k" "k < 2 ^ 40" using assms(1,2) by (simp_all add: k_def)
  have "\<bar>k\<bar> < 2 ^ 53" using k by simp
  then have "fl (of_int k) = of_int k" by (rule fl_of_int)
  then have f: "fl (of_int day - 1) = of_int k" by (simp add: k_def)
  define E :: rat where "E = of_int b * (1 + of_int k / 20)"
  have "20 * E = of_int b * (20 + of_int k)"
    by (simp add: E_def algebra_simps)
  also have "\<dots> = of_int b * (of_int day + 19)"
    by (simp add: k_def)
  finally have m: "(of_int (b * (day + 19)) :: rat) = 20 * E"
    by simp
  have "\<lfloor>fl (of_int b * fl (1 + fl (of_int k * fl 0.05))) + 1 / 2\<rfloor> = \<lfloor>E + 1 / 2\<rfloor>"
    using m assms(5) reps_error [OF k assms(3,4)] unfolding E_def by (rule round_stable)
  moreover have "of_int b * (1 + (of_int day - 1) * 0.05) = E"
    by (simp add: E_def k_def)
  ultimately show ?thesis
    by (simp add: Math_round_def round_def f)
qed


section \<open>The ledger\<close>

lemma set_fold_Set_add: "set (fold (\<lambda>x s. Set_add s x) xs acc) = set acc \<union> set xs"
  by (induction xs arbitrary: acc) (auto simp: Set_add_def)

lemma distinct_fold_Set_add:
  "distinct acc \<Longrightarrow> distinct (fold (\<lambda>x s. Set_add s x) xs acc)"
  by (induction xs arbitrary: acc) (auto simp: Set_add_def)

lemma fold_Set_add_distinct:
  "distinct (acc @ xs) \<Longrightarrow> fold (\<lambda>x s. Set_add s x) xs acc = acc @ xs"
  by (induction xs arbitrary: acc) (auto simp: Set_add_def)

lemma set_new_Set: "set (new_Set xs) = set xs"
  by (simp add: new_Set_def set_fold_Set_add)

lemma distinct_new_Set: "distinct (new_Set xs)"
  by (simp add: new_Set_def distinct_fold_Set_add)

lemma new_Set_distinct: "distinct xs \<Longrightarrow> new_Set xs = xs"
  using fold_Set_add_distinct [of "[]" xs] by (simp add: new_Set_def)

lemma new_Set_snoc: "new_Set (xs @ [x]) = Set_add (new_Set xs) x"
  by (simp add: new_Set_def)

lemma set_recordCompletion: "set (recordCompletion prev day) = insert day (set prev)"
  by (simp add: recordCompletion_def set_new_Set)

lemma recordCompletion_Set_add: "recordCompletion prev day = Set_add (new_Set prev) day"
  by (simp add: recordCompletion_def new_Set_snoc)

lemma distinct_recordCompletion: "distinct (recordCompletion prev day)"
  by (simp add: recordCompletion_def distinct_new_Set)

lemma Math_floor_fdiv:
  assumes "0 \<le> k" "k < 2 ^ 53" "0 < d"
  shows "Math_floor (fdiv (of_int k) (of_int d)) = k div d"
  using floor_fl_div [OF assms] by (simp add: Math_floor_def fdiv_def)

lemma floor_fl_div_neg:
  assumes "0 < k" "k < 2 ^ 53" "0 < d"
  shows "\<lfloor>fl (of_int (- k) / of_int d)\<rfloor> = (- k) div d"
proof -
  define x :: rat where "x = of_int k / of_int d"
  define n where "n = k div d"
  have xpos: "0 < x" using assms(1,3) by (simp add: x_def)
  have neg: "fl (of_int (- k) / of_int d) = - fl x"
    using fl_neg [of x] by (simp add: x_def)
  have fx: "\<lfloor>fl x\<rfloor> = n"
    using floor_fl_div [of k d] assms by (simp add: x_def n_def)
  have km: "k = d * n + k mod d" "0 \<le> k mod d" "k mod d < d"
    using assms(3) by (simp_all add: n_def)
  show ?thesis
  proof (cases "k mod d = 0")
    case True
    then have kd: "k = d * n" using km(1) by simp
    then have xn: "x = of_int n"
      using assms(3) by (simp add: x_def)
    have "0 \<le> n" using assms(1,3) by (simp add: n_def pos_imp_zdiv_nonneg_iff)
    moreover have "1 * n \<le> d * n"
      using assms(3) \<open>0 \<le> n\<close> by (intro mult_right_mono) simp_all
    then have "n \<le> k" using kd by simp
    ultimately have "\<bar>n\<bar> < 2 ^ 53" using assms(2) by simp
    then have "fl x = of_int n"
      unfolding xn by (rule fl_of_int)
    then have "\<lfloor>- fl x\<rfloor> = - n" by simp
    moreover have "(- k) div d = - n"
    proof -
      have "- k = d * (- n)" using kd by simp
      moreover have "d \<noteq> 0" using assms(3) by simp
      ultimately show ?thesis by (metis nonzero_mult_div_cancel_left)
    qed
    ultimately show ?thesis by (simp only: neg)
  next
    case False
    then have r: "1 \<le> k mod d" using km(2) by simp
    have dpos: "(0::rat) < of_int d" using assms(3) by simp
    have "d * n + 1 \<le> k" using km(1) r by linarith
    then have "(of_int (d * n + 1) :: rat) \<le> of_int k"
      by (simp only: of_int_le_iff)
    then have "(of_int (d * n + 1) :: rat) / of_int d \<le> of_int k / of_int d"
      using dpos by (intro divide_right_mono) simp_all
    moreover have "(of_int (d * n + 1) :: rat) / of_int d = of_int n + 1 / of_int d"
      using dpos by (simp add: field_simps)
    ultimately have nx: "of_int n + 1 / of_int d \<le> x"
      by (simp add: x_def)
    have ax: "\<bar>x\<bar> = x" using xpos by simp
    have "\<bar>fl x - x\<bar> \<le> x / 2 ^ 53"
      using fl_error [of x] by (simp only: ax)
    then have lo: "x - x / 2 ^ 53 \<le> fl x" by linarith
    have "(of_int k :: rat) < of_int (2 ^ 53)"
      using assms(2) by (simp only: of_int_less_iff)
    then have "(of_int k :: rat) < 2 ^ 53" by simp
    then have "x / 2 ^ 53 < 1 / of_int d"
      using assms(3) by (simp add: x_def field_simps)
    with nx lo have gt: "of_int n < fl x" by linarith
    have "of_int \<lfloor>fl x\<rfloor> \<le> fl x" "fl x < of_int \<lfloor>fl x\<rfloor> + 1"
      by linarith+
    then have lt: "fl x < of_int n + 1" by (simp only: fx)
    have "of_int (- n - 1) \<le> - fl x" "- fl x < of_int (- n - 1) + 1"
      using gt lt by simp_all
    then have "\<lfloor>- fl x\<rfloor> = - n - 1" by (rule floor_unique)
    moreover have "(- k) div d = - n - 1"
    proof -
      have eq: "- k = d * (- n - 1) + (d - k mod d)"
        using km(1) by (simp add: algebra_simps)
      have dn: "d \<noteq> 0" using assms(3) by simp
      have "(d * (- n - 1) + (d - k mod d)) div d = (- n - 1) + (d - k mod d) div d"
        using dn by (rule div_mult_self4)
      moreover have "(d - k mod d) div d = 0"
        using r km(3) by (intro div_pos_pos_trivial) simp_all
      ultimately have "(d * (- n - 1) + (d - k mod d)) div d = - n - 1" by simp
      then show ?thesis by (simp only: eq [symmetric])
    qed
    ultimately show ?thesis by (simp only: neg)
  qed
qed

lemma Math_floor_fdiv_int:
  assumes "\<bar>k\<bar> < 2 ^ 53" "0 < d"
  shows "Math_floor (fdiv (of_int k) (of_int d)) = k div d"
proof (cases "0 \<le> k")
  case True
  then show ?thesis
    using assms by (intro Math_floor_fdiv) simp_all
next
  case False
  then have "0 < - k" "- k < 2 ^ 53" using assms(1) by simp_all
  then have "\<lfloor>fl (of_int (- (- k)) / of_int d)\<rfloor> = (- (- k)) div d"
    using assms(2) by (rule floor_fl_div_neg)
  then show ?thesis
    by (simp add: Math_floor_def fdiv_def)
qed

lemma currentPhase_eq:
  assumes "length cd < 2 ^ 53"
  shows "currentPhase cd = int (length cd) div 30 + 1"
proof -
  have "int (length cd) < 2 ^ 53"
    using assms by (metis of_nat_less_iff of_nat_numeral of_nat_power)
  then have "Math_floor (fdiv (of_int (int (length cd))) (of_int 30)) = int (length cd) div 30"
    by (intro Math_floor_fdiv) simp_all
  then show ?thesis
    by (simp add: currentPhase_def)
qed

lemma currentPhase_pos: "1 \<le> currentPhase cd"
proof -
  have "(0::rat) \<le> of_nat (length cd) / 30" by simp
  then have "0 \<le> fl (of_nat (length cd) / 30)" by (rule fl_nonneg)
  then show ?thesis
    by (simp add: currentPhase_def Math_floor_def fdiv_def)
qed

lemma gridDay_pos: "1 \<le> gridDay cd i"
  using currentPhase_pos [of cd] by (simp add: gridDay_def phaseDayOffset_def)

lemma Math_max_eq:
  assumes "cd \<noteq> []"
  shows "Math_max cd = Some (Max (set cd))"
proof -
  obtain x xs where cd: "cd = x # xs" using assms by (cases cd) auto
  show ?thesis
    unfolding cd Math_max.simps by (simp only: Max.set_eq_fold)
qed

lemma isNext_iff: "isNext cd d \<longleftrightarrow> d = (if cd = [] then 1 else Max (set cd) + 1)"
  by (cases "cd = []") (simp_all add: isNext_def Math_max_eq)

lemma length_le_Max:
  assumes "distinct cd" "\<forall>x \<in> set cd. 1 \<le> x" "cd \<noteq> []"
  shows "int (length cd) \<le> Max (set cd)"
proof -
  have "set cd \<subseteq> {1..Max (set cd)}"
    using assms(2) by auto
  then have "card (set cd) \<le> card {1..Max (set cd)}"
    by (intro card_mono) simp_all
  then have "length cd \<le> nat (Max (set cd))"
    using assms(1) by (simp add: distinct_card)
  moreover have "1 \<le> Max (set cd)"
    using assms(2,3) by simp
  ultimately show ?thesis by linarith
qed

lemma length_interval:
  assumes "distinct cd" "set cd = {1..n}"
  shows "int (length cd) = (if cd = [] then 0 else n)" and "cd \<noteq> [] \<Longrightarrow> Max (set cd) = n"
proof -
  have "length cd = card {1..n}"
    using assms by (metis distinct_card)
  moreover have n: "1 \<le> n" if "cd \<noteq> []"
  proof -
    from that obtain a where "a \<in> set cd" by (cases cd) auto
    then have "a \<in> {1..n}" by (simp only: assms(2))
    then show ?thesis by simp
  qed
  ultimately show "int (length cd) = (if cd = [] then 0 else n)"
    by auto
  show "Max (set cd) = n" if "cd \<noteq> []"
    unfolding assms(2) using n [OF that] by (intro Max_eqI) simp_all
qed


section \<open>The state machine\<close>

lemma nextExercise_rest:
  assumes "currentWorkout st = Inr cw" "currentExerciseIndex (session st) < int (length cw) - 1"
  shows "nextExercise now st =
           Inr (st\<lparr>session := (session st)\<lparr>isResting := True,
                                            restTimeLeft := restDuration (config st)\<rparr>\<rparr>)"
  using assms by (simp add: nextExercise_def)

lemma nextExercise_last:
  assumes "currentWorkout st = Inr cw" "\<not> currentExerciseIndex (session st) < int (length cw) - 1"
  shows "nextExercise now st =
           Inr (st\<lparr>lastStats := Some \<lparr>calories = Math_round (totalCals st cw),
                    duration = Math_floor
                      (fdiv (fsub (of_int now) (of_int (startedAt now (session st)))) 60000)\<rparr>,
                  completedDays := recordCompletion (completedDays st) (currentDay (session st)),
                  view := Summary,
                  session := (session st)\<lparr>isActive := False\<rparr>\<rparr>)"
  using assms by (simp add: nextExercise_def Let_def)

lemma handler_resting_keeps_index:
  assumes "handler now ev st = Inr st'" "isResting (session st')"
  shows "currentExerciseIndex (session st') = currentExerciseIndex (session st)"
  using assms
  by (cases ev)
    (auto simp: startWorkout_def abort_def previousExercise_def nextExercise_def
      skipToNextExercise_def skipRecovery_def tick_def restElapsed_def initialState_def
      Let_def split: sum.splits if_splits)

lemma resting_index_change:
  assumes "view st = Workout" "isResting (session st)"
    and "enabled ev st" and "handler now ev st = Inr st'"
    and "currentExerciseIndex (session st') \<noteq> currentExerciseIndex (session st)"
  shows "ev = RestElapsed \<and> restTimeLeft (session st) = 0 \<and> st' = restElapsed st"
  using assms
  by (cases ev) (auto simp: skipRecovery_def tick_def hasTabs_def)

text \<open>The invariant holds initially and every handler keeps it.\<close>

lemma sessionInv_startWorkout:
  assumes "0 \<le> day" "validFocus f"
  shows "sessionInv (startWorkout now day f st)"
  using plan_ok [OF assms] assms
  by (auto simp: sessionInv_def startWorkout_def currentWorkout_def)

lemma sessionInv_initialState: "sessionInv (initialState ud cfg cd)"
  using plan_ok [of 1 None]
  by (auto simp: sessionInv_def initialState_def currentWorkout_def validFocus_def)

lemma sessionInv_handler:
  assumes "sessionInv st" "enabled ev st" "handler now ev st = Inr st'"
  shows "sessionInv st'"
proof (cases ev)
  case (FocusDay cat)
  then show ?thesis
    using assms sessionInv_startWorkout [of "int (length (completedDays st)) + 1" "Some cat" now st]
    by (auto simp: validFocus_def)
next
  case (GridCell i)
  then show ?thesis
    using assms gridDay_pos [of "completedDays st" i]
      sessionInv_startWorkout [of "gridDay (completedDays st) i" None now st]
    by (auto simp: validFocus_def)
next
  case Resume
  then show ?thesis
    using assms sessionInv_startWorkout [of "int (length (completedDays st)) + 1" None now st]
    by (auto simp: validFocus_def)
next
  case Purge
  then show ?thesis
    using assms sessionInv_initialState by auto
next
  case CompletePhase
  then show ?thesis
    using assms
    by (auto simp: sessionInv_def nextExercise_def currentWorkout_def Let_def
        split: sum.splits if_splits)
next
  case SkipNext
  then show ?thesis
    using assms
    by (auto simp: sessionInv_def skipToNextExercise_def currentWorkout_def
        split: sum.splits if_splits)
next
  case Previous
  then show ?thesis
    using assms
    by (auto simp: sessionInv_def previousExercise_def currentWorkout_def
        split: sum.splits if_splits)
next
  case RestElapsed
  then show ?thesis
    using assms
    by (auto simp: sessionInv_def restElapsed_def currentWorkout_def split: sum.splits)
qed (use assms in \<open>auto simp: sessionInv_def currentWorkout_def abort_def skipRecovery_def
      tick_def split: sum.splits\<close>)

lemma reachable_sessionInv:
  assumes "reachable st"
  shows "sessionInv st"
  using assms
proof (induction rule: reachable.induct)
  case (start ud cfg cd)
  show ?case by (rule sessionInv_initialState)
next
  case (step st ev now st')
  from step.hyps(3) have "handler now ev st = Inr st'"
    by (simp add: fire_def split: sum.splits)
  with step.IH step.hyps(2) show ?case
    by (rule sessionInv_handler)
qed

text \<open>A rest is only ever running in the workout view.\<close>

lemma resting_view_handler:
  assumes "isResting (session st) \<longrightarrow> view st = Workout"
    and "enabled ev st" and "handler now ev st = Inr st'"
  shows "isResting (session st') \<longrightarrow> view st' = Workout"
  using assms
  by (cases ev)
    (auto simp: startWorkout_def abort_def previousExercise_def nextExercise_def
      skipToNextExercise_def skipRecovery_def tick_def restElapsed_def initialState_def
      hasTabs_def timerArmed_def Let_def split: sum.splits if_splits)

lemma reachable_resting_view:
  assumes "reachable st"
  shows "isResting (session st) \<longrightarrow> view st = Workout"
  using assms
proof (induction rule: reachable.induct)
  case (start ud cfg cd)
  show ?case by (simp add: initialState_def)
next
  case (step st ev now st')
  from step.hyps(3) have "handler now ev st = Inr st'"
    by (simp add: fire_def split: sum.splits)
  with step.IH step.hyps(2) show ?case
    by (rule resting_view_handler)
qed


section \<open>The example states, evaluated\<close>

lemma currentWorkout_example:
  assumes "0 \<le> day"
  shows "currentWorkout (exampleSession day i r t) = Inr (noFocusPlan day)"
  unfolding noFocusPlan_def currentWorkout_def
  using getWorkoutForDay_None [OF assms] by (simp add: exampleSession_def)

lemma currentWorkout_example_1: "currentWorkout (exampleSession 1 i r t) = Inr (noFocusPlan 1)"
  by (rule currentWorkout_example) simp

lemma currentWorkout_example_7: "currentWorkout (exampleSession 7 i r t) = Inr (noFocusPlan 7)"
  by (rule currentWorkout_example) simp

lemma currentWorkout_initialState: "currentWorkout (initialState ud cfg cd) = Inr (noFocusPlan 1)"
  unfolding noFocusPlan_def currentWorkout_def
  using getWorkoutForDay_None [of 1] by (simp add: initialState_def)

lemma length_noFocusPlan: "length (noFocusPlan day) = 5"
  by (simp add: noFocusPlan_def CATEGORIES_def)

lemma currentPhase_Nil: "currentPhase [] = 1"
  using currentPhase_eq [of "[]"] by simp

lemma reachable_example_0:
  assumes "i < 30"
  shows "reachable (exampleSession (int i + 1) 0 False 30)"
proof -
  let ?s = "initialState \<lparr>weight = 65, onboarded = True\<rparr> INITIAL_CONFIG []"
  have "reachable ?s" by (rule reachable.start)
  moreover have "enabled (GridCell i) ?s"
    using assms by (simp add: initialState_def)
  moreover have "fire 1000 (GridCell i) ?s = Inr (exampleSession (int i + 1) 0 False 30)"
    unfolding fire_def currentWorkout_initialState
    by (simp add: initialState_def startWorkout_def exampleSession_def INITIAL_CONFIG_def
        gridDay_def phaseDayOffset_def currentPhase_Nil)
  ultimately show ?thesis by (rule reachable.step)
qed

lemma reachable_example_skip:
  assumes "reachable (exampleSession day i False 30)" "0 \<le> day" "i < 4"
  shows "reachable (exampleSession day (i + 1) False 30)"
proof -
  note cw = currentWorkout_example [OF assms(2)]
  have c: "currentExerciseIndex (session (exampleSession day i False 30)) = i"
    "view (exampleSession day i False 30) = Workout"
    "\<not> isResting (session (exampleSession day i False 30))"
    by (simp_all add: exampleSession_def)
  have e: "enabled SkipNext (exampleSession day i False 30)"
    using assms(3) by (simp add: cw length_noFocusPlan c)
  have u: "(exampleSession day i False 30)\<lparr>session := (session (exampleSession day i False 30))
             \<lparr>isResting := False, currentExerciseIndex := i + 1\<rparr>\<rparr> =
           exampleSession day (i + 1) False 30"
    by (simp add: exampleSession_def)
  have "skipToNextExercise (exampleSession day i False 30) =
          Inr (exampleSession day (i + 1) False 30)"
    using assms(3) by (simp add: skipToNextExercise_def cw length_noFocusPlan c u)
  then have f: "fire 0 SkipNext (exampleSession day i False 30) =
                  Inr (exampleSession day (i + 1) False 30)"
    by (simp add: fire_def cw)
  show ?thesis
    by (rule reachable.step [OF assms(1) e f])
qed

lemma reachable_example_4:
  assumes "i < 30"
  shows "reachable (exampleSession (int i + 1) 4 False 30)"
proof -
  have d: "0 \<le> int i + 1" by simp
  have "reachable (exampleSession (int i + 1) (0 + 1) False 30)"
    by (rule reachable_example_skip [OF reachable_example_0 [OF assms] d]) simp
  then have "reachable (exampleSession (int i + 1) 1 False 30)" by simp
  then have "reachable (exampleSession (int i + 1) (1 + 1) False 30)"
    using d by (rule reachable_example_skip) simp
  then have "reachable (exampleSession (int i + 1) 2 False 30)" by simp
  then have "reachable (exampleSession (int i + 1) (2 + 1) False 30)"
    using d by (rule reachable_example_skip) simp
  then have "reachable (exampleSession (int i + 1) 3 False 30)" by simp
  then have "reachable (exampleSession (int i + 1) (3 + 1) False 30)"
    using d by (rule reachable_example_skip) simp
  then show ?thesis by simp
qed

lemma reachable_day_1: "reachable (exampleSession 1 4 False 30)"
  using reachable_example_4 [of 0] by simp

lemma reachable_day_7: "reachable (exampleSession 7 4 False 30)"
  using reachable_example_4 [of 6] by simp

lemma reachable_resting_0: "reachable (exampleSession 1 0 True 0)"
proof -
  have a: "reachable (exampleSession 1 0 False 30)"
    using reachable_example_0 [of 0] by simp
  have "enabled CompletePhase (exampleSession 1 0 False 30)"
    by (simp add: exampleSession_def)
  moreover have "fire 5000 CompletePhase (exampleSession 1 0 False 30) =
                   Inr (exampleSession 1 0 True 30)"
    unfolding fire_def currentWorkout_example_1
    by (simp add: nextExercise_def currentWorkout_example_1 length_noFocusPlan)
       (simp add: exampleSession_def INITIAL_CONFIG_def)
  ultimately have b: "reachable (exampleSession 1 0 True 30)"
    by (rule reachable.step [OF a])
  have "enabled SkipRecovery (exampleSession 1 0 True 30)"
    by (simp add: exampleSession_def)
  moreover have "fire 5000 SkipRecovery (exampleSession 1 0 True 30) =
                   Inr (exampleSession 1 0 True 0)"
    unfolding fire_def currentWorkout_example_1
    by (simp add: skipRecovery_def exampleSession_def)
  ultimately show ?thesis
    by (rule reachable.step [OF b])
qed

lemma fire_RestElapsed_example:
  "fire 5000 RestElapsed (exampleSession 1 0 True 0) = Inr (exampleSession 1 1 False 0)"
  unfolding fire_def currentWorkout_example_1
  by (simp add: restElapsed_def exampleSession_def)

lemma restEffect_example:
  "restEffect (exampleSession 1 0 True 0) = exampleSession 1 1 False 0"
  by (simp add: restEffect_def timerArmed_def restElapsed_def exampleSession_def)

text \<open>
  The calories of day 7 at 65 kg, operation by operation: \<open>60 / 3600\<close>, the five products
  \<open>met * 65 * (60 / 3600)\<close> and the running sums, each rounded to a double.
\<close>

lemma fl_dyadic: "fl 4 = 4" "fl (7 / 2) = 7 / 2" "fl (5 / 2) = 5 / 2"
  "fl (17 / 2) = 17 / 2" "fl (11 / 2) = 11 / 2" "fl 6 = 6"
  by code_simp+

lemma met_plan7: "map met (noFocusPlan 7) = [4, 7 / 2, 4, 4, 5 / 2]"
  by (simp add: noFocusPlan_def CATEGORIES_def catExercises_simps exercise_def withReps_def fl_dyadic)

lemma fl_60_3600: "fl (60 / 3600) = 4803839602528529 / 288230376151711744"
  by code_simp

lemma fl_products_65: "fl (4 * 65) = 260" "fl (7 / 2 * 65) = 455 / 2" "fl (5 / 2 * 65) = 325 / 2"
  by code_simp+

lemma cals_7_terms:
  "fl (260 * (4803839602528529 / 288230376151711744)) = 4878899596318037 / 1125899906842624"
  "fl (455 / 2 * (4803839602528529 / 288230376151711744)) = 8538074293556565 / 2251799813685248"
  "fl (325 / 2 * (4803839602528529 / 288230376151711744)) = 6098624495397547 / 2251799813685248"
  by code_simp+

lemma cals_7_sums:
  "fl (4878899596318037 / 1125899906842624) = 4878899596318037 / 1125899906842624"
  "fl (4878899596318037 / 1125899906842624 + 8538074293556565 / 2251799813685248) = 65 / 8"
  "fl (65 / 8 + 4878899596318037 / 1125899906842624) = 3506709084853589 / 281474976710656"
  "fl (3506709084853589 / 281474976710656 + 4878899596318037 / 1125899906842624) =
     2363216991966549 / 140737488355328"
  "fl (2363216991966549 / 140737488355328 + 6098624495397547 / 2251799813685248) =
     5488762045857791 / 281474976710656"
  by code_simp+

lemma cals_7:
  "foldl (\<lambda>acc m. fadd acc (fmul (fmul m 65) (fdiv 60 3600))) 0 [4, 7 / 2, 4, 4, 5 / 2] =
     5488762045857791 / 281474976710656"
  unfolding foldl.simps fadd_def fmul_def fdiv_def fl_60_3600 fl_products_65 cals_7_terms
    add_0 cals_7_sums ..

lemma totalCals_example_7:
  "totalCals (exampleSession 7 i r t) (noFocusPlan 7) = 5488762045857791 / 281474976710656"
proof -
  have "totalCals (exampleSession 7 i r t) (noFocusPlan 7) =
          foldl (\<lambda>acc m. fadd acc (fmul (fmul m 65) (fdiv 60 3600))) 0 (map met (noFocusPlan 7))"
    by (simp add: totalCals_def calculateCalories_def exampleSession_def foldl_map)
  then show ?thesis
    by (simp only: met_plan7 cals_7)
qed

lemma Math_round_cals_7: "Math_round (5488762045857791 / 281474976710656) = 19"
  by code_simp

text \<open>Day 1 at 65 kg in exact arithmetic.\<close>

lemma met_plan1: "map met (noFocusPlan 1) = [17 / 2, 11 / 2, 6, 4, 7 / 2]"
  by (simp add: noFocusPlan_def CATEGORIES_def catExercises_simps exercise_def withReps_def fl_dyadic)

lemma spec_calories_1: "spec_calories 65 (noFocusPlan 1) = 715 / 24"
proof -
  have "spec_calories 65 (noFocusPlan 1) = (\<Sum>m\<leftarrow>map met (noFocusPlan 1). m * 65 * (60 / 3600))"
    by (simp add: spec_calories_def comp_def)
  then show ?thesis
    by (simp only: met_plan1) simp
qed

lemma floor_1: "\<lfloor>715 / 24 :: rat\<rfloor> = 29"
  by (rule floor_unique) simp_all

lemma off_half_1: "(1::rat) / 2 ^ 36 \<le> \<bar>715 / 24 - of_int \<lfloor>715 / 24 :: rat\<rfloor> - 1 / 2\<bar>"
  unfolding floor_1 by simp

lemma round_1: "round (715 / 24 :: rat) = 30"
  unfolding round_def by (rule floor_unique) simp_all


section \<open>The error of the calorie sum\<close>

text \<open>
  A plan has at most five items, each with \<open>met\<close> between 0 and 16. For a weight between
  0 and 1024 every term is below \<open>2^9\<close> and every partial sum below \<open>2^12\<close>, so the three
  roundings of a step add at most \<open>2^-39\<close> to the error, and the rounded sum is within
  \<open>5 * 2^-39\<close> of the exact one. Unless the exact sum lies within \<open>2^-36\<close> of a
  half-integer, both round to the same integer.
\<close>

lemma fl_literal_bound:
  assumes "0 \<le> x" "x \<le> 9"
  shows "0 \<le> fl x \<and> fl x \<le> 16"
proof -
  have "\<bar>fl x - x\<bar> \<le> \<bar>x\<bar> / 2 ^ 53" by (rule fl_error)
  also have "\<dots> \<le> 9 / 2 ^ 53"
    using assms by (intro divide_right_mono) simp_all
  finally have "\<bar>fl x - x\<bar> \<le> 1" by simp
  then show ?thesis
    using assms fl_nonneg [OF assms(1)] by linarith
qed

lemma met_bound:
  assumes "e \<in> set EXERCISES"
  shows "0 \<le> met e \<and> met e \<le> 16"
  using assms by (auto simp: EXERCISES_def exercise_def intro!: fl_literal_bound [THEN conjunct1]
      fl_literal_bound [THEN conjunct2])

lemma length_catExercises_le: "length (catExercises c) \<le> 5"
proof (cases "c \<in> set CATEGORIES")
  case True
  then show ?thesis
    by (auto simp: CATEGORIES_def catExercises_simps)
next
  case False
  have "\<forall>e \<in> set EXERCISES. category e \<in> set CATEGORIES"
    by (simp add: EXERCISES_def exercise_def CATEGORIES_def)
  with False have "catExercises c = []"
    by (auto simp: catExercises_def filter_empty_conv)
  then show ?thesis by simp
qed

lemma traverse_Inr_D:
  assumes "traverse f xs = Inr ys"
  shows "length ys = length xs \<and> (\<forall>y \<in> set ys. \<exists>x \<in> set xs. f x = Inr y)"
  using assms
proof (induction xs arbitrary: ys)
  case Nil
  then show ?case by simp
next
  case (Cons x xs)
  then show ?case
    by (auto split: sum.splits)
qed

lemma js_index_mem:
  assumes "js_index xs i = Some b"
  shows "b \<in> set xs"
  using assms by (auto simp: js_index_def split: option.splits if_splits)

lemma pick_Inr_D:
  assumes "pick day cat = Inr ex"
  shows "\<exists>base \<in> set (catExercises cat). ex = withReps (intensity day) base"
  using assms js_index_mem [of "catExercises cat" "js_rem day (int (length (catExercises cat)))"]
  by (auto simp: pick_def split: option.splits)

lemma plan_items:
  assumes "getWorkoutForDay day f = Inr cw"
  shows "length cw \<le> 5 \<and> (\<forall>ex \<in> set cw. 0 \<le> met ex \<and> met ex \<le> 16)"
proof (cases "truthy f")
  case True
  then have cw: "cw = map (withReps (intensity day)) (catExercises (the f))"
    using assms by (simp add: getWorkoutForDay_def)
  have "\<forall>e \<in> set (catExercises (the f)). 0 \<le> met e \<and> met e \<le> 16"
    using met_bound by (simp add: catExercises_def)
  then show ?thesis
    unfolding cw using length_catExercises_le [of "the f"] by (simp add: withReps_def)
next
  case False
  then have t: "traverse (pick day) CATEGORIES = Inr cw"
    using assms by (simp add: getWorkoutForDay_def)
  note d = traverse_Inr_D [OF t]
  have "0 \<le> met ex \<and> met ex \<le> 16" if "ex \<in> set cw" for ex
  proof -
    from d that obtain cat where "pick day cat = Inr ex" by blast
    then obtain base where b: "base \<in> set (catExercises cat)" "ex = withReps (intensity day) base"
      using pick_Inr_D by blast
    then have "base \<in> set EXERCISES" by (simp add: catExercises_def)
    then show ?thesis
      using met_bound b(2) by (simp add: withReps_def)
  qed
  then show ?thesis
    using d by (simp add: CATEGORIES_def)
qed

lemma calorie_step:
  assumes "0 \<le> w" "w \<le> 1024" "0 \<le> m" "m \<le> 16" "0 \<le> acc" "acc \<le> 4096"
  shows "0 \<le> fl (acc + fl (fl (m * w) * fl (60 / 3600))) \<and>
         fl (acc + fl (fl (m * w) * fl (60 / 3600))) \<le> acc + 1024 \<and>
         \<bar>fl (acc + fl (fl (m * w) * fl (60 / 3600))) - (acc + m * w * (60 / 3600))\<bar>
           \<le> 1 / 549755813888"
proof -
  define a where "a = fl (m * w)"
  define c where "c = fl (60 / 3600)"
  define t where "t = fl (a * c)"
  define x where "x = acc + t"
  have mw: "0 \<le> m * w" "m * w \<le> 16384"
  proof -
    show "0 \<le> m * w" using assms(1,3) by simp
    have "m * w \<le> 16 * 1024"
      using assms(1-4) by (intro mult_mono) simp_all
    then show "m * w \<le> 16384" by simp
  qed
  have ea: "\<bar>a - m * w\<bar> \<le> 1 / 549755813888"
  proof -
    have "\<bar>a - m * w\<bar> \<le> \<bar>m * w\<bar> / 2 ^ 53"
      unfolding a_def by (rule fl_error)
    also have "\<dots> \<le> 16384 / 2 ^ 53"
      using mw by (intro divide_right_mono) simp_all
    also have "\<dots> = 1 / 549755813888" by simp
    finally show ?thesis .
  qed
  have a: "0 \<le> a" "a \<le> 16385"
  proof -
    show "0 \<le> a" unfolding a_def using mw(1) by (rule fl_nonneg)
    show "a \<le> 16385" using ea mw(2) by linarith
  qed
  have c: "0 \<le> c" "c \<le> 1 / 32" "\<bar>c - 1 / 60\<bar> \<le> 1 / 2 ^ 58"
    unfolding c_def fl_60_3600 by simp_all
  have ac: "0 \<le> a * c" "a * c \<le> 513"
  proof -
    show "0 \<le> a * c" using a(1) c(1) by simp
    have "a * c \<le> 16385 * (1 / 32)"
      using a c by (intro mult_mono) simp_all
    then show "a * c \<le> 513" by simp
  qed
  have e1: "\<bar>(a - m * w) * c\<bar> \<le> 1 / 17592186044416"
  proof -
    have "\<bar>(a - m * w) * c\<bar> = \<bar>a - m * w\<bar> * c"
      using c(1) by (simp only: abs_mult abs_of_nonneg)
    also have "\<dots> \<le> 1 / 549755813888 * (1 / 32)"
      using ea c by (intro mult_mono) simp_all
    also have "\<dots> = 1 / 17592186044416" by simp
    finally show ?thesis .
  qed
  have e2: "\<bar>m * w * (c - 1 / 60)\<bar> \<le> 1 / 17592186044416"
  proof -
    have "\<bar>m * w * (c - 1 / 60)\<bar> = \<bar>m * w\<bar> * \<bar>c - 1 / 60\<bar>"
      by (rule abs_mult)
    also have "\<dots> = m * w * \<bar>c - 1 / 60\<bar>"
      using mw(1) by (simp only: abs_of_nonneg)
    also have "\<dots> \<le> 16384 * (1 / 2 ^ 58)"
      using mw c by (intro mult_mono) simp_all
    also have "\<dots> = 1 / 17592186044416" by simp
    finally show ?thesis .
  qed
  have "a * c - m * w / 60 = (a - m * w) * c + m * w * (c - 1 / 60)"
    by (simp add: algebra_simps)
  then have e12: "\<bar>a * c - m * w / 60\<bar> \<le> 1 / 8796093022208"
    using e1 e2 by linarith
  have e3: "\<bar>t - a * c\<bar> \<le> 1 / 8796093022208"
  proof -
    have "\<bar>t - a * c\<bar> \<le> \<bar>a * c\<bar> / 2 ^ 53"
      unfolding t_def by (rule fl_error)
    also have "\<dots> \<le> 1024 / 2 ^ 53"
      using ac by (intro divide_right_mono) simp_all
    also have "\<dots> = 1 / 8796093022208" by simp
    finally show ?thesis .
  qed
  have t: "0 \<le> t" "t \<le> 514"
  proof -
    show "0 \<le> t" unfolding t_def using ac(1) by (rule fl_nonneg)
    show "t \<le> 514" using e3 ac(2) by linarith
  qed
  have x: "0 \<le> x" "x \<le> 8192"
    using t assms(5,6) by (simp_all add: x_def)
  have e4: "\<bar>fl x - x\<bar> \<le> 1 / 1099511627776"
  proof -
    have "\<bar>fl x - x\<bar> \<le> \<bar>x\<bar> / 2 ^ 53"
      by (rule fl_error)
    also have "\<dots> \<le> 8192 / 2 ^ 53"
      using x by (intro divide_right_mono) simp_all
    also have "\<dots> = 1 / 1099511627776" by simp
    finally show ?thesis .
  qed
  have 1: "0 \<le> fl x" using x(1) by (rule fl_nonneg)
  have 2: "fl x \<le> acc + 1024"
    using e4 t(2) unfolding x_def by linarith
  have 3: "\<bar>fl x - (acc + m * w / 60)\<bar> \<le> 1 / 549755813888"
    using e4 e3 e12 unfolding x_def by linarith
  from 1 2 3 show ?thesis
    by (simp add: x_def t_def a_def c_def)
qed

lemma cals_fold_error:
  assumes "0 \<le> w" "w \<le> 1024" "\<forall>m \<in> set ms. 0 \<le> m \<and> m \<le> 16" "j + length ms \<le> 5"
    and "0 \<le> acc" "acc \<le> of_nat j * 1024" "\<bar>acc - A\<bar> \<le> of_nat j / 549755813888"
  shows "\<bar>foldl (\<lambda>acc m. fl (acc + fl (fl (m * w) * fl (60 / 3600)))) acc ms -
           (A + (\<Sum>m\<leftarrow>ms. m * w * (60 / 3600)))\<bar>
         \<le> of_nat (j + length ms) / 549755813888"
  using assms(3-)
proof (induction ms arbitrary: acc A j)
  case Nil
  then show ?case by simp
next
  case (Cons m ms)
  let ?acc = "fl (acc + fl (fl (m * w) * fl (60 / 3600)))"
  have j: "j \<le> 4" using Cons.prems(2) by simp
  then have "(of_nat j :: rat) \<le> 4" by simp
  then have acc: "acc \<le> 4096" using Cons.prems(4) by simp
  have m: "0 \<le> m" "m \<le> 16" using Cons.prems(1) by simp_all
  note s = calorie_step [OF assms(1,2) m Cons.prems(3) acc]
  have 1: "\<forall>m \<in> set ms. 0 \<le> m \<and> m \<le> 16" using Cons.prems(1) by simp
  have 2: "Suc j + length ms \<le> 5" using Cons.prems(2) by simp
  have 3: "0 \<le> ?acc" using s by simp
  have 4: "?acc \<le> of_nat (Suc j) * 1024"
    using s Cons.prems(4) by (simp add: algebra_simps)
  have 5: "\<bar>?acc - (A + m * w * (60 / 3600))\<bar> \<le> of_nat (Suc j) / 549755813888"
  proof -
    have "\<bar>?acc - (acc + m * w * (60 / 3600))\<bar> \<le> 1 / 549755813888"
      using s by simp
    moreover have "(of_nat (Suc j) :: rat) / 549755813888 =
                     of_nat j / 549755813888 + 1 / 549755813888"
      by (simp add: add_divide_distrib)
    ultimately show ?thesis
      using Cons.prems(5) by linarith
  qed
  from Cons.IH [OF 1 2 3 4 5] show ?case
    by (simp add: add.assoc)
qed

lemma round_stable_frac:
  fixes E r :: rat
  assumes "\<bar>r - E\<bar> < d" "d \<le> 1 / 2" "d \<le> \<bar>E - of_int \<lfloor>E\<rfloor> - 1 / 2\<bar>"
  shows "\<lfloor>r + 1 / 2\<rfloor> = \<lfloor>E + 1 / 2\<rfloor>"
proof -
  define n where "n = \<lfloor>E\<rfloor>"
  have n: "of_int n \<le> E" "E < of_int n + 1"
    unfolding n_def by linarith+
  consider "E - of_int n - 1 / 2 \<le> - d" | "d \<le> E - of_int n - 1 / 2"
    using assms(3) unfolding n_def by linarith
  then show ?thesis
  proof cases
    case 1
    have "of_int n \<le> E + 1 / 2" "E + 1 / 2 < of_int n + 1"
      using n 1 assms(1) by linarith+
    then have a: "\<lfloor>E + 1 / 2\<rfloor> = n" by (rule floor_unique)
    have "of_int n \<le> r + 1 / 2" "r + 1 / 2 < of_int n + 1"
      using n 1 assms(1,2) by linarith+
    then have "\<lfloor>r + 1 / 2\<rfloor> = n" by (rule floor_unique)
    with a show ?thesis by simp
  next
    case 2
    have "of_int n + 1 \<le> E + 1 / 2" "E + 1 / 2 < of_int n + 1 + 1"
      using n 2 assms(1) by linarith+
    then have "of_int (n + 1) \<le> E + 1 / 2" "E + 1 / 2 < of_int (n + 1) + 1"
      by simp_all
    then have a: "\<lfloor>E + 1 / 2\<rfloor> = n + 1" by (rule floor_unique)
    have "of_int n + 1 \<le> r + 1 / 2" "r + 1 / 2 < of_int n + 1 + 1"
      using n 2 assms(1,2) by linarith+
    then have "of_int (n + 1) \<le> r + 1 / 2" "r + 1 / 2 < of_int (n + 1) + 1"
      by simp_all
    then have "\<lfloor>r + 1 / 2\<rfloor> = n + 1" by (rule floor_unique)
    with a show ?thesis by simp
  qed
qed

lemma totalCals_fold:
  "totalCals st cw =
     foldl (\<lambda>acc m. fl (acc + fl (fl (m * weight (userData st)) * fl (60 / 3600)))) 0 (map met cw)"
  by (simp add: totalCals_def calculateCalories_def fadd_def fmul_def fdiv_def foldl_map)

lemma totalCals_exact:
  assumes "currentWorkout st = Inr cw"
    and "0 \<le> weight (userData st)" "weight (userData st) \<le> 1024"
    and "1 / 2 ^ 36 \<le>
           \<bar>(\<Sum>ex\<leftarrow>cw. met ex * weight (userData st) * (60 / 3600)) -
            of_int \<lfloor>\<Sum>ex\<leftarrow>cw. met ex * weight (userData st) * (60 / 3600)\<rfloor> - 1 / 2\<bar>"
  shows "Math_round (totalCals st cw) =
           round (\<Sum>ex\<leftarrow>cw. met ex * weight (userData st) * (60 / 3600))"
proof -
  define w where "w = weight (userData st)"
  define E where "E = (\<Sum>ex\<leftarrow>cw. met ex * w * (60 / 3600))"
  have p: "length cw \<le> 5" "\<forall>ex \<in> set cw. 0 \<le> met ex \<and> met ex \<le> 16"
    using plan_items [of "currentDay (session st)" "focusCategory (session st)" cw] assms(1)
    by (simp_all add: currentWorkout_def)
  have ms: "\<forall>m \<in> set (map met cw). 0 \<le> m \<and> m \<le> 16" using p(2) by simp
  have len: "0 + length (map met cw) \<le> 5" using p(1) by simp
  have "\<bar>foldl (\<lambda>acc m. fl (acc + fl (fl (m * w) * fl (60 / 3600)))) 0 (map met cw) -
           (0 + (\<Sum>m\<leftarrow>map met cw. m * w * (60 / 3600)))\<bar>
         \<le> of_nat (0 + length (map met cw)) / 549755813888"
    using assms(2,3) ms len unfolding w_def by (intro cals_fold_error) simp_all
  moreover have "(\<Sum>m\<leftarrow>map met cw. m * w * (60 / 3600)) = E"
    by (simp add: E_def comp_def)
  moreover have "(of_nat (length cw) :: rat) \<le> 5" using p(1) by simp
  ultimately have "\<bar>totalCals st cw - E\<bar> \<le> 5 / 549755813888"
    by (simp add: totalCals_fold w_def divide_right_mono)
  then have "\<bar>totalCals st cw - E\<bar> < 1 / 2 ^ 36" by simp
  moreover have "(1::rat) / 2 ^ 36 \<le> 1 / 2" by simp
  moreover have "1 / 2 ^ 36 \<le> \<bar>E - of_int \<lfloor>E\<rfloor> - 1 / 2\<bar>"
    using assms(4) by (simp add: E_def w_def)
  ultimately have "\<lfloor>totalCals st cw + 1 / 2\<rfloor> = \<lfloor>E + 1 / 2\<rfloor>"
    by (rule round_stable_frac)
  then show ?thesis
    by (simp add: Math_round_def round_def E_def w_def)
qed

text \<open>
  The range of the calorie sum. Rounding at most doubles a magnitude, so for a weight of
  magnitude at most \<open>B\<close> a product \<open>met * weight\<close> is at most \<open>32 * B\<close>, a term at most
  \<open>2 * B\<close> and a sum of up to five terms at most \<open>124 * B\<close>. With \<open>B = 2^1000\<close> every
  product, every term and every partial sum is below \<open>2^1024\<close>, where a double
  overflows.
\<close>

lemma fl_abs_le: "\<bar>fl x\<bar> \<le> 2 * \<bar>x\<bar>"
proof -
  define y where "y = fl x"
  define z where "z = \<bar>x\<bar> / 2 ^ 53"
  have e: "\<bar>y - x\<bar> \<le> z"
    unfolding y_def z_def by (rule fl_error)
  have "\<bar>x\<bar> / 2 ^ 53 \<le> \<bar>x\<bar> / 1"
    by (rule divide_left_mono) simp_all
  then have h: "z \<le> \<bar>x\<bar>" by (simp only: z_def div_by_1)
  from e h have "\<bar>y\<bar> \<le> 2 * \<bar>x\<bar>" by linarith
  then show ?thesis by (simp only: y_def)
qed

lemma calorie_term_range:
  assumes "0 \<le> m" "m \<le> 16" "\<bar>w\<bar> \<le> B"
  shows "\<bar>fl (m * w)\<bar> \<le> 32 * B" "\<bar>fl (fl (m * w) * fl (60 / 3600))\<bar> \<le> 2 * B"
proof -
  define c where "c = fl (60 / 3600)"
  have c: "0 \<le> c" "c \<le> 1 / 32"
    unfolding c_def fl_60_3600 by simp_all
  define p where "p = fl (m * w)"
  have "\<bar>m * w\<bar> = m * \<bar>w\<bar>" using assms(1) by (simp add: abs_mult)
  also have "\<dots> \<le> 16 * B"
    using assms by (intro mult_mono) simp_all
  finally have mw: "\<bar>m * w\<bar> \<le> 16 * B" .
  have "\<bar>p\<bar> \<le> 2 * \<bar>m * w\<bar>" unfolding p_def by (rule fl_abs_le)
  also have "\<dots> \<le> 32 * B" using mw by simp
  finally have a: "\<bar>p\<bar> \<le> 32 * B" .
  then show "\<bar>fl (m * w)\<bar> \<le> 32 * B" by (simp only: p_def)
  have "\<bar>p * c\<bar> = \<bar>p\<bar> * c" using c(1) by (simp add: abs_mult)
  also have "\<dots> \<le> \<bar>p\<bar> * (1 / 32)"
    using c(2) by (intro mult_left_mono) simp_all
  also have "\<dots> \<le> B" using a by simp
  finally have pc: "\<bar>p * c\<bar> \<le> B" .
  have "\<bar>fl (p * c)\<bar> \<le> 2 * \<bar>p * c\<bar>" by (rule fl_abs_le)
  also have "\<dots> \<le> 2 * B" using pc by simp
  finally show "\<bar>fl (fl (m * w) * fl (60 / 3600))\<bar> \<le> 2 * B"
    by (simp only: p_def c_def)
qed

lemma cals_fold_range:
  assumes "\<forall>m \<in> set ms. 0 \<le> m \<and> m \<le> 16" "\<bar>w\<bar> \<le> B"
  shows "\<bar>foldl (\<lambda>acc m. fl (acc + fl (fl (m * w) * fl (60 / 3600)))) a ms\<bar>
           \<le> 2 ^ length ms * (\<bar>a\<bar> + 4 * B) - 4 * B"
  using assms(1)
proof (induction ms arbitrary: a)
  case Nil
  show ?case by simp
next
  case (Cons m ms)
  define t where "t = fl (fl (m * w) * fl (60 / 3600))"
  define a' where "a' = fl (a + t)"
  have m: "0 \<le> m" "m \<le> 16" using Cons.prems by simp_all
  have t: "\<bar>t\<bar> \<le> 2 * B"
    unfolding t_def using m assms(2) by (rule calorie_term_range(2))
  have "\<bar>a + t\<bar> \<le> \<bar>a\<bar> + \<bar>t\<bar>" by (rule abs_triangle_ineq)
  also have "\<dots> \<le> \<bar>a\<bar> + 2 * B" using t by simp
  finally have at: "\<bar>a + t\<bar> \<le> \<bar>a\<bar> + 2 * B" .
  have "\<bar>a'\<bar> \<le> 2 * \<bar>a + t\<bar>" unfolding a'_def by (rule fl_abs_le)
  also have "\<dots> \<le> 2 * (\<bar>a\<bar> + 2 * B)" using at by simp
  finally have a': "\<bar>a'\<bar> \<le> 2 * (\<bar>a\<bar> + 2 * B)" .
  have ms: "\<forall>m \<in> set ms. 0 \<le> m \<and> m \<le> 16" using Cons.prems by simp
  have "\<bar>foldl (\<lambda>acc m. fl (acc + fl (fl (m * w) * fl (60 / 3600)))) a' ms\<bar>
          \<le> 2 ^ length ms * (\<bar>a'\<bar> + 4 * B) - 4 * B"
    using ms by (rule Cons.IH)
  also have "\<dots> \<le> 2 ^ length ms * (2 * (\<bar>a\<bar> + 2 * B) + 4 * B) - 4 * B"
    using a' by simp
  also have "\<dots> = 2 ^ length (m # ms) * (\<bar>a\<bar> + 4 * B) - 4 * B"
    by (simp add: algebra_simps)
  finally have "\<bar>foldl (\<lambda>acc m. fl (acc + fl (fl (m * w) * fl (60 / 3600)))) a' ms\<bar>
                  \<le> 2 ^ length (m # ms) * (\<bar>a\<bar> + 4 * B) - 4 * B" .
  then show ?case
    by (simp only: foldl_Cons a'_def t_def)
qed

lemma totalCals_in_range:
  assumes "currentWorkout st = Inr cw" "\<bar>weight (userData st)\<bar> \<le> 2 ^ 1000"
  shows "\<forall>ex \<in> set cw. \<bar>fmul (met ex) (weight (userData st))\<bar> < 2 ^ 1024 \<and>
                        \<bar>calculateCalories st (met ex) 60\<bar> < 2 ^ 1024"
    and "\<bar>totalCals st (take n cw)\<bar> < 2 ^ 1024"
proof -
  define w where "w = weight (userData st)"
  have p: "length cw \<le> 5" "\<forall>ex \<in> set cw. 0 \<le> met ex \<and> met ex \<le> 16"
    using plan_items [of "currentDay (session st)" "focusCategory (session st)" cw] assms(1)
    by (simp_all add: currentWorkout_def)
  have B: "\<bar>w\<bar> \<le> 2 ^ 1000" using assms(2) by (simp add: w_def)
  have s1: "(32::rat) * 2 ^ 1000 < 2 ^ 1024" "(2::rat) * 2 ^ 1000 < 2 ^ 1024"
    by simp_all
  show "\<forall>ex \<in> set cw. \<bar>fmul (met ex) (weight (userData st))\<bar> < 2 ^ 1024 \<and>
                        \<bar>calculateCalories st (met ex) 60\<bar> < 2 ^ 1024"
  proof
    fix ex assume "ex \<in> set cw"
    then have m: "0 \<le> met ex" "met ex \<le> 16" using p(2) by simp_all
    have "\<bar>fl (met ex * w)\<bar> \<le> 32 * 2 ^ 1000"
      "\<bar>fl (fl (met ex * w) * fl (60 / 3600))\<bar> \<le> 2 * 2 ^ 1000"
      using calorie_term_range [OF m B] by simp_all
    then have "\<bar>fl (met ex * w)\<bar> < 2 ^ 1024"
      "\<bar>fl (fl (met ex * w) * fl (60 / 3600))\<bar> < 2 ^ 1024"
      using s1 by linarith+
    then show "\<bar>fmul (met ex) (weight (userData st))\<bar> < 2 ^ 1024 \<and>
               \<bar>calculateCalories st (met ex) 60\<bar> < 2 ^ 1024"
      by (simp add: calculateCalories_def fmul_def fdiv_def w_def)
  qed
  have ms: "\<forall>m \<in> set (map met (take n cw)). 0 \<le> m \<and> m \<le> 16"
    using p(2) by (auto dest: in_set_takeD)
  have len: "length (map met (take n cw)) \<le> 5" using p(1) by simp
  have "\<bar>foldl (\<lambda>acc m. fl (acc + fl (fl (m * w) * fl (60 / 3600)))) 0 (map met (take n cw))\<bar>
          \<le> 2 ^ length (map met (take n cw)) * (\<bar>0\<bar> + 4 * 2 ^ 1000) - 4 * 2 ^ 1000"
    using ms B by (rule cals_fold_range)
  also have "\<dots> \<le> 2 ^ 5 * (\<bar>0\<bar> + 4 * 2 ^ 1000) - 4 * (2 ^ 1000 :: rat)"
  proof -
    have "(2::rat) ^ length (map met (take n cw)) \<le> 2 ^ 5"
      using len by (intro power_increasing) simp_all
    then show ?thesis by simp
  qed
  also have "\<dots> < 2 ^ 1024" by simp
  finally show "\<bar>totalCals st (take n cw)\<bar> < 2 ^ 1024"
    by (simp add: totalCals_fold w_def)
qed


section \<open>Leaving a workout\<close>

text \<open>
  Claim C1 says that ABORT deactivates the session and leaves the ledger as it was. The
  handler only switches the view: the ledger is indeed unchanged, but so is the whole
  session, and a session that was started and then left through ABORT still has
  \<open>isActive\<close> set. The other way out of a workout, completing the last exercise, does
  clear the flag.
\<close>

theorem abort_keeps_session_active:
  "session (abort st) = session st \<and>
   completedDays (abort st) = completedDays st \<and>
   view (abort st) = Dashboard \<and>
   isActive (session (abort (startWorkout now day focus st)))"
  by (simp add: abort_def startWorkout_def)


section \<open>Locked days of the dashboard\<close>

text \<open>
  Claim C2, as amended. The day marked as next is \<open>max + 1\<close> of the completed days, or 1
  when there are none. A cell \<open>d\<close> shows the LOCKED overlay exactly when \<open>d\<close> is not
  completed, is not that next day, and \<open>d\<close> is greater than the number of completed days
  plus one. For completed days that are distinct and at least 1, every \<open>d\<close> beyond the
  next day is locked; and when the completed days are exactly \<open>1..n\<close>, \<open>d\<close> is locked if and
  only if it is beyond the next day.
\<close>

theorem locked_characterisation:
  "(isNext cd d \<longleftrightarrow> d = (if cd = [] then 1 else Max (set cd) + 1)) \<and>
   (locked cd d \<longleftrightarrow>
      d \<notin> set cd \<and> d \<noteq> (if cd = [] then 1 else Max (set cd) + 1) \<and> d > int (length cd) + 1) \<and>
   (distinct cd \<and> (\<forall>x \<in> set cd. 1 \<le> x) \<and> d > (if cd = [] then 1 else Max (set cd) + 1)
      \<longrightarrow> locked cd d) \<and>
   (distinct cd \<and> set cd = {1..n}
      \<longrightarrow> (locked cd d \<longleftrightarrow> d > (if cd = [] then 1 else Max (set cd) + 1)))"
proof (intro conjI impI)
  show "isNext cd d \<longleftrightarrow> d = (if cd = [] then 1 else Max (set cd) + 1)"
    by (rule isNext_iff)
  show l: "locked cd d \<longleftrightarrow>
      d \<notin> set cd \<and> d \<noteq> (if cd = [] then 1 else Max (set cd) + 1) \<and> d > int (length cd) + 1"
    by (simp add: locked_def isDone_def isNext_iff)
  show "locked cd d"
    if h: "distinct cd \<and> (\<forall>x \<in> set cd. 1 \<le> x) \<and> d > (if cd = [] then 1 else Max (set cd) + 1)"
  proof (cases "cd = []")
    case True
    with h show ?thesis unfolding l by simp
  next
    case False
    with h have "int (length cd) \<le> Max (set cd)" by (simp add: length_le_Max)
    moreover have "d \<notin> set cd"
    proof
      assume "d \<in> set cd"
      then have "d \<le> Max (set cd)" by simp
      with h False show False by simp
    qed
    ultimately show ?thesis using h False unfolding l by simp
  qed
  show "locked cd d \<longleftrightarrow> d > (if cd = [] then 1 else Max (set cd) + 1)"
    if h: "distinct cd \<and> set cd = {1..n}"
  proof (cases "cd = []")
    case True
    then show ?thesis unfolding l by auto
  next
    case False
    have "int (length cd) = n" "Max (set cd) = n"
      using length_interval [of cd n] h False by simp_all
    then show ?thesis
      using h False unfolding l by auto
  qed
qed

theorem locked_characterisation_witness:
  "distinct [1, 2, 3 :: int] \<and> 1 \<le> Min (set [1, 2, 3 :: int]) \<and>
   set [1, 2, 3 :: int] = {1..3} \<and> (7::int) > Max (set [1, 2, 3]) + 1 \<and>
   isNext [1, 2, 3] 4 \<and> locked [1, 2, 3] 7 \<and> \<not> locked [1, 2, 3] 4"
proof -
  have s: "set [1, 2, 3 :: int] = {1..3}" by auto
  show ?thesis
    using locked_characterisation [of "[1, 2, 3]" 7 3] locked_characterisation [of "[1, 2, 3]" 4 3] s
    by simp
qed

text \<open>
  Claim C2 as stated has the overlay depend on the maximum alone. With day 5 the only
  completed day, cell 3 of the grid is locked (it is neither done nor next, and
  \<open>3 > 1 + 1\<close>), though 3 is not beyond the next day, 6.
\<close>

theorem locked_out_of_order_counterexample:
  "gridDay [5] 2 = 3 \<and> locked [5] 3 \<and> Math_max [5] = Some 5 \<and> \<not> (3::int) > 5 + 1"
proof -
  have "currentPhase [5] = 1"
    using currentPhase_eq [of "[5]"] by simp
  then show ?thesis
    by (simp add: gridDay_def phaseDayOffset_def locked_def isDone_def isNext_def)
qed


section \<open>Completing the last exercise\<close>

text \<open>
  Claim C3, as amended. For a session on the last exercise of its plan whose start time
  \<open>t\<close> is recorded and not 0, COMPLETE PHASE at time \<open>now\<close> deactivates the session,
  leaves the session's day in the ledger, and records a summary whose duration is
  \<open>Math.floor\<close> of \<open>(now - t) / 60000\<close>, the whole minutes of the elapsed milliseconds
  (rounded down also when the clock was set back and \<open>now - t\<close> is negative), and whose
  calories are \<open>Math.round\<close> of the sum over the plan of \<open>met * weight * (60 / 3600)\<close>,
  computed in double arithmetic: each product and each addition rounded, the sum
  accumulated from the left. For a weight between 0 and 1024 the calories are the exact
  sum rounded, unless that sum lies within \<open>2^-36\<close> of a half-integer.

  The two timestamps are less than \<open>2^53\<close> milliseconds apart, so that their difference
  is a double. The weight is at most \<open>2^1000\<close> in magnitude: then no product and no
  partial sum reaches \<open>2^1024\<close> (\<open>totalCals_in_range\<close>), beyond which the program
  reports \<open>Infinity\<close>. For a weight so small that a product is subnormal in the program,
  every term is below \<open>2^-1000\<close> and the sum rounds to 0 there as it does here.
\<close>

theorem completion_summary:
  assumes "currentWorkout st = Inr cw"
    and "currentExerciseIndex (session st) = int (length cw) - 1"
    and "startTime (session st) = Some t" and "t \<noteq> 0" and "\<bar>now - t\<bar> < 2 ^ 53"
    and "\<bar>weight (userData st)\<bar> \<le> 2 ^ 1000"
  shows "\<exists>st'. nextExercise now st = Inr st' \<and>
           \<not> isActive (session st') \<and>
           currentDay (session st) \<in> set (completedDays st') \<and>
           lastStats st' =
             Some \<lparr>calories =
                     Math_round (foldl (\<lambda>acc ex.
                        fl (acc + fl (fl (met ex * weight (userData st)) * fl (60 / 3600)))) 0 cw),
                   duration = (now - t) div 60000\<rparr> \<and>
           (0 \<le> weight (userData st) \<and> weight (userData st) \<le> 1024 \<and>
            1 / 2 ^ 36 \<le> \<bar>spec_calories (weight (userData st)) cw -
                              of_int \<lfloor>spec_calories (weight (userData st)) cw\<rfloor> - 1 / 2\<bar> \<longrightarrow>
              map_option calories (lastStats st') =
                Some (round (spec_calories (weight (userData st)) cw)))"
proof -
  have "\<not> currentExerciseIndex (session st) < int (length cw) - 1"
    using assms(2) by simp
  note ne = nextExercise_last [OF assms(1) this, of now]
  have st: "startedAt now (session st) = t"
    using assms(3,4) by (simp add: startedAt_def)
  have "fl (of_int (now - t)) = of_int (now - t)"
    using assms(5) by (rule fl_of_int)
  then have sub: "fsub (of_int now) (of_int t) = of_int (now - t)"
    by (simp add: fsub_def)
  have "Math_floor (fdiv (of_int (now - t)) (of_int 60000)) = (now - t) div 60000"
    using assms(5) by (intro Math_floor_fdiv_int) simp_all
  then have dur: "Math_floor (fdiv (fsub (of_int now) (of_int (startedAt now (session st)))) 60000) =
                    (now - t) div 60000"
    by (simp only: st sub of_int_numeral)
  have cal: "totalCals st cw =
               foldl (\<lambda>acc ex. fl (acc + fl (fl (met ex * weight (userData st)) * fl (60 / 3600))))
                 0 cw"
    by (simp add: totalCals_def calculateCalories_def fadd_def fmul_def fdiv_def)
  have "0 \<le> weight (userData st) \<and> weight (userData st) \<le> 1024 \<and>
        1 / 2 ^ 36 \<le> \<bar>spec_calories (weight (userData st)) cw -
                          of_int \<lfloor>spec_calories (weight (userData st)) cw\<rfloor> - 1 / 2\<bar> \<longrightarrow>
        Math_round (totalCals st cw) = round (spec_calories (weight (userData st)) cw)"
    using totalCals_exact [OF assms(1)] by (simp add: spec_calories_def)
  then show ?thesis
    unfolding ne dur cal by (simp add: set_recordCompletion)
qed

theorem completion_summary_witness:
  "(1000::int) \<noteq> 0 \<and> \<bar>200000 - 1000 :: int\<bar> < 2 ^ 53 \<and>
   \<bar>weight (userData (exampleSession 1 4 False 30))\<bar> \<le> 2 ^ 1000 \<and>
   currentWorkout (exampleSession 1 4 False 30) = Inr (noFocusPlan 1) \<and>
   currentExerciseIndex (session (exampleSession 1 4 False 30)) = int (length (noFocusPlan 1)) - 1 \<and>
   startTime (session (exampleSession 1 4 False 30)) = Some 1000 \<and>
   weight (userData (exampleSession 1 4 False 30)) = 65 \<and>
   spec_calories 65 (noFocusPlan 1) = 715 / 24 \<and>
   1 / 2 ^ 36 \<le> \<bar>spec_calories 65 (noFocusPlan 1) -
                     of_int \<lfloor>spec_calories 65 (noFocusPlan 1)\<rfloor> - 1 / 2\<bar> \<and>
   (\<exists>st'. nextExercise 200000 (exampleSession 1 4 False 30) = Inr st' \<and>
      \<not> isActive (session st') \<and> 1 \<in> set (completedDays st') \<and>
      lastStats st' = Some \<lparr>calories = 30, duration = 3\<rparr>)"
proof -
  have i: "currentExerciseIndex (session (exampleSession 1 4 False 30)) = int (length (noFocusPlan 1)) - 1"
    and t: "startTime (session (exampleSession 1 4 False 30)) = Some 1000"
    and w: "weight (userData (exampleSession 1 4 False 30)) = 65"
    and d: "currentDay (session (exampleSession 1 4 False 30)) = 1"
    by (simp_all add: exampleSession_def length_noFocusPlan)
  have h: "1 / 2 ^ 36 \<le> \<bar>spec_calories 65 (noFocusPlan 1) -
                            of_int \<lfloor>spec_calories 65 (noFocusPlan 1)\<rfloor> - 1 / 2\<bar>"
    unfolding spec_calories_1 by (rule off_half_1)
  have "\<exists>st'. nextExercise 200000 (exampleSession 1 4 False 30) = Inr st' \<and>
      \<not> isActive (session st') \<and>
      currentDay (session (exampleSession 1 4 False 30)) \<in> set (completedDays st') \<and>
      lastStats st' =
        Some \<lparr>calories =
                Math_round (foldl (\<lambda>acc ex.
                  fl (acc + fl (fl (met ex * weight (userData (exampleSession 1 4 False 30))) *
                                fl (60 / 3600)))) 0 (noFocusPlan 1)),
              duration = (200000 - 1000) div 60000\<rparr> \<and>
      (0 \<le> weight (userData (exampleSession 1 4 False 30)) \<and>
       weight (userData (exampleSession 1 4 False 30)) \<le> 1024 \<and>
       1 / 2 ^ 36 \<le> \<bar>spec_calories (weight (userData (exampleSession 1 4 False 30))) (noFocusPlan 1) -
                         of_int \<lfloor>spec_calories (weight (userData (exampleSession 1 4 False 30)))
                                   (noFocusPlan 1)\<rfloor> - 1 / 2\<bar> \<longrightarrow>
         map_option calories (lastStats st') =
           Some (round (spec_calories (weight (userData (exampleSession 1 4 False 30)))
                          (noFocusPlan 1))))"
    by (rule completion_summary [OF currentWorkout_example_1 i t]) (simp_all add: w)
  then obtain st' where s: "nextExercise 200000 (exampleSession 1 4 False 30) = Inr st'"
    "\<not> isActive (session st')" "1 \<in> set (completedDays st')"
    and du: "map_option duration (lastStats st') = Some 3"
    and ca: "map_option calories (lastStats st') = Some (round (spec_calories 65 (noFocusPlan 1)))"
    unfolding w d using h by auto
  from ca have "map_option calories (lastStats st') = Some 30"
    by (simp only: spec_calories_1 round_1)
  with du have "lastStats st' = Some \<lparr>calories = 30, duration = 3\<rparr>"
    by (cases "lastStats st'") auto
  with s have e: "\<exists>st'. nextExercise 200000 (exampleSession 1 4 False 30) = Inr st' \<and>
      \<not> isActive (session st') \<and> 1 \<in> set (completedDays st') \<and>
      lastStats st' = Some \<lparr>calories = 30, duration = 3\<rparr>"
    by blast
  have c: "(1000::int) \<noteq> 0" "\<bar>200000 - 1000 :: int\<bar> < 2 ^ 53"
    "\<bar>weight (userData (exampleSession 1 4 False 30))\<bar> \<le> 2 ^ 1000"
    by (simp_all add: w)
  show ?thesis
    by (intro conjI c i t w h e spec_calories_1 currentWorkout_example_1)
qed

text \<open>
  Claim C3 as stated takes the sum in exact arithmetic. On day 7 the plan has the
  \<open>met\<close> values 4, 3.5, 4, 4 and 2.5; at 65 kg the exact sum is \<open>18 * 65 / 60 = 19.5\<close>,
  which rounds to 20, while the doubles add up to \<open>19.499999999999996\<close>, which
  \<open>Math.round\<close> takes to 19.
\<close>

theorem exact_calories_counterexample:
  "reachable (exampleSession 7 4 False 30) \<and>
   \<not> isl (nextExercise 200000 (exampleSession 7 4 False 30)) \<and>
   map_option calories (lastStats (projr (nextExercise 200000 (exampleSession 7 4 False 30)))) =
     Some 19 \<and>
   weight (userData (exampleSession 7 4 False 30)) = 65 \<and>
   map met (projr (currentWorkout (exampleSession 7 4 False 30))) = [4, 7 / 2, 4, 4, 5 / 2] \<and>
   (4::rat) * 65 * (60 / 3600) + 7 / 2 * 65 * (60 / 3600) + 4 * 65 * (60 / 3600) +
     4 * 65 * (60 / 3600) + 5 / 2 * 65 * (60 / 3600) = 19 + 1 / 2 \<and>
   round ((4::rat) * 65 * (60 / 3600) + 7 / 2 * 65 * (60 / 3600) + 4 * 65 * (60 / 3600) +
          4 * 65 * (60 / 3600) + 5 / 2 * 65 * (60 / 3600)) = (20::int)"
proof -
  have "\<not> currentExerciseIndex (session (exampleSession 7 4 False 30)) < int (length (noFocusPlan 7)) - 1"
    by (simp add: exampleSession_def length_noFocusPlan)
  note ne = nextExercise_last [OF currentWorkout_example_7 this, of 200000]
  have "round ((4::rat) * 65 * (60 / 3600) + 7 / 2 * 65 * (60 / 3600) + 4 * 65 * (60 / 3600) +
          4 * 65 * (60 / 3600) + 5 / 2 * 65 * (60 / 3600)) = (20::int)"
    by (simp add: round_def)
  moreover have "weight (userData (exampleSession 7 4 False 30)) = 65"
    by (simp add: exampleSession_def)
  ultimately show ?thesis
    unfolding ne currentWorkout_example_7
    by (simp add: totalCals_example_7 Math_round_cals_7 met_plan7 reachable_day_7)
qed


section \<open>Plan generation without a focus category\<close>

text \<open>
  Claim C4, as amended. For every \<open>day \<ge> 1\<close>, \<open>getWorkoutForDay\<close> without a focus category
  returns one item per category, in the order of \<open>CATEGORIES\<close>; the item of a category is
  the exercise at index \<open>day mod n\<close> among the \<open>n\<close> catalog exercises of that category, in
  the order the catalog declares them; its \<open>reps\<close> is \<open>Math.round\<close> of the product
  \<open>baseReps * (1 + (day - 1) * 0.05)\<close> computed in double arithmetic, each operation
  rounded; on day 1 every item has \<open>reps = baseReps\<close>; and for a day below \<open>2^40\<close>
  \<open>reps\<close> is that product computed exactly and rounded, unless the exact product is a
  half-integer, which is when \<open>baseReps * (day + 19)\<close> leaves 10 modulo 20.
\<close>

theorem getWorkoutForDay_no_focus:
  assumes "1 \<le> day"
  shows "\<exists>items. getWorkoutForDay day None = Inr items \<and>
           length items = length CATEGORIES \<and>
           map category items = CATEGORIES \<and>
           (\<forall>i < length CATEGORIES.
              Exercise.truncate (items ! i) =
                catExercises (CATEGORIES ! i) !
                  nat (day mod int (length (catExercises (CATEGORIES ! i)))) \<and>
              reps (items ! i) =
                Math_round (fl (of_int (baseReps (items ! i)) *
                                fl (1 + fl (fl (of_int day - 1) * fl 0.05))))) \<and>
           (day = 1 \<longrightarrow> (\<forall>i < length CATEGORIES. reps (items ! i) = baseReps (items ! i))) \<and>
           (day < 2 ^ 40 \<longrightarrow>
              (\<forall>i < length CATEGORIES.
                 (baseReps (items ! i) * (day + 19)) mod 20 \<noteq> 10 \<longrightarrow>
                 reps (items ! i) =
                   round (of_int (baseReps (items ! i)) * (1 + (of_int day - 1) * 0.05) :: rat)))"
proof -
  define sel where
    "sel cat = catExercises cat ! nat (day mod int (length (catExercises cat)))" for cat
  define items where "items = map (\<lambda>cat. withReps (intensity day) (sel cat)) CATEGORIES"
  have day0: "0 \<le> day" using assms by simp
  have 1: "getWorkoutForDay day None = Inr items"
    unfolding items_def sel_def by (rule getWorkoutForDay_None [OF day0])
  have 2: "length items = length CATEGORIES"
    by (simp add: items_def)
  have sel_in: "sel cat \<in> set (catExercises cat)" if "cat \<in> set CATEGORIES" for cat
    unfolding sel_def using that by (rule nth_catExercises)
  have "map category items = map (\<lambda>cat. cat) CATEGORIES"
    unfolding items_def map_map
    by (rule map_cong [OF refl]) (simp add: withReps_def category_catExercises [OF sel_in])
  then have 3: "map category items = CATEGORIES" by simp
  have 4: "Exercise.truncate (items ! i) = sel (CATEGORIES ! i) \<and>
           reps (items ! i) =
             Math_round (fl (of_int (baseReps (items ! i)) *
                             fl (1 + fl (fl (of_int day - 1) * fl 0.05))))"
    if "i < length CATEGORIES" for i
    using that
    by (simp add: items_def withReps_def Exercise.truncate_def intensity_def fadd_def fmul_def
        fsub_def)
  have 5: "reps (items ! i) = baseReps (items ! i)" if "day = 1" "i < length CATEGORIES" for i
  proof -
    have "sel (CATEGORIES ! i) \<in> set (catExercises (CATEGORIES ! i))"
      using that(2) by (intro sel_in nth_mem)
    then have "reps (withReps 1 (sel (CATEGORIES ! i))) = baseReps (sel (CATEGORIES ! i))"
      by (rule reps_withReps_1)
    then show ?thesis
      using that by (simp add: items_def intensity_1) (simp add: withReps_def)
  qed
  have 6: "reps (items ! i) =
             round (of_int (baseReps (items ! i)) * (1 + (of_int day - 1) * 0.05) :: rat)"
    if "day < 2 ^ 40" "i < length CATEGORIES" "(baseReps (items ! i) * (day + 19)) mod 20 \<noteq> 10"
    for i
  proof -
    have "sel (CATEGORIES ! i) \<in> set (catExercises (CATEGORIES ! i))"
      using that(2) by (intro sel_in nth_mem)
    then have r: "0 < baseReps (sel (CATEGORIES ! i))" "baseReps (sel (CATEGORIES ! i)) \<le> 30"
      using baseReps_range by blast+
    have b: "baseReps (items ! i) = baseReps (sel (CATEGORIES ! i))"
      using that(2) by (simp add: items_def withReps_def)
    have "Math_round (fl (of_int (baseReps (items ! i)) *
                          fl (1 + fl (fl (of_int day - 1) * fl 0.05)))) =
            round (of_int (baseReps (items ! i)) * (1 + (of_int day - 1) * 0.05) :: rat)"
      using assms that(1) r that(3) unfolding b by (rule reps_exact)
    then show ?thesis
      using 4 [OF that(2)] by simp
  qed
  from 1 2 3 4 5 6 show ?thesis
    unfolding sel_def by blast
qed

theorem getWorkoutForDay_no_focus_witness:
  "(1::int) \<le> 1 \<and> (1::int) < 2 ^ 40 \<and> 0 < length CATEGORIES \<and>
   (\<exists>items. getWorkoutForDay 1 None = Inr items \<and>
      length items = 5 \<and>
      map category items = [''Arms & Biceps'', ''Legs'', ''Shoulders'', ''Abs'', ''Back''] \<and>
      ex_id (Exercise.truncate (items ! 0)) = ''e2'' \<and>
      baseReps (items ! 0) = 8 \<and>
      (baseReps (items ! 0) * (1 + 19)) mod 20 \<noteq> 10 \<and>
      reps (items ! 0) = baseReps (items ! 0) \<and>
      reps (items ! 0) = round (of_int (baseReps (items ! 0)) * (1 + (of_int 1 - 1) * 0.05) :: rat))"
proof -
  have len: "0 < length CATEGORIES" by (simp add: CATEGORIES_def)
  obtain items where h: "getWorkoutForDay 1 None = Inr items"
      "length items = length CATEGORIES" "map category items = CATEGORIES"
      "\<forall>i < length CATEGORIES.
         Exercise.truncate (items ! i) =
           catExercises (CATEGORIES ! i) ! nat (1 mod int (length (catExercises (CATEGORIES ! i))))"
      "\<forall>i < length CATEGORIES. reps (items ! i) = baseReps (items ! i)"
      "\<forall>i < length CATEGORIES.
         (baseReps (items ! i) * (1 + 19)) mod 20 \<noteq> 10 \<longrightarrow>
         reps (items ! i) =
           round (of_int (baseReps (items ! i)) * (1 + (of_int 1 - 1) * 0.05) :: rat)"
    using getWorkoutForDay_no_focus [of 1] by auto
  have t: "Exercise.truncate (items ! 0) =
          catExercises (CATEGORIES ! 0) ! nat (1 mod int (length (catExercises (CATEGORIES ! 0))))"
    using h(4) len by blast
  then have "baseReps (Exercise.truncate (items ! 0)) = 8"
    by (simp add: CATEGORIES_def catExercises_Arms exercise_def)
  then have b: "baseReps (items ! 0) = 8"
    by (simp add: Exercise.truncate_def)
  then have m: "(baseReps (items ! 0) * (1 + 19)) mod 20 \<noteq> 10"
    by simp
  have e: "ex_id (Exercise.truncate (items ! 0)) = ''e2''"
    using t by (simp add: CATEGORIES_def catExercises_Arms exercise_def)
  have r1: "reps (items ! 0) = baseReps (items ! 0)"
    using h(5) len by blast
  have r2: "reps (items ! 0) =
              round (of_int (baseReps (items ! 0)) * (1 + (of_int 1 - 1) * 0.05) :: rat)"
    using h(6) len m by blast
  have l: "length items = 5"
    using h(2) by (simp add: CATEGORIES_def)
  have c: "map category items = [''Arms & Biceps'', ''Legs'', ''Shoulders'', ''Abs'', ''Back'']"
    using h(3) by (simp add: CATEGORIES_def)
  have "getWorkoutForDay 1 None = Inr items \<and>
      length items = 5 \<and>
      map category items = [''Arms & Biceps'', ''Legs'', ''Shoulders'', ''Abs'', ''Back''] \<and>
      ex_id (Exercise.truncate (items ! 0)) = ''e2'' \<and>
      baseReps (items ! 0) = 8 \<and>
      (baseReps (items ! 0) * (1 + 19)) mod 20 \<noteq> 10 \<and>
      reps (items ! 0) = baseReps (items ! 0) \<and>
      reps (items ! 0) = round (of_int (baseReps (items ! 0)) * (1 + (of_int 1 - 1) * 0.05) :: rat)"
    by (intro conjI h(1) l c e b m r1 r2)
  then have
    "\<exists>items. getWorkoutForDay 1 None = Inr items \<and>
      length items = 5 \<and>
      map category items = [''Arms & Biceps'', ''Legs'', ''Shoulders'', ''Abs'', ''Back''] \<and>
      ex_id (Exercise.truncate (items ! 0)) = ''e2'' \<and>
      baseReps (items ! 0) = 8 \<and>
      (baseReps (items ! 0) * (1 + 19)) mod 20 \<noteq> 10 \<and>
      reps (items ! 0) = baseReps (items ! 0) \<and>
      reps (items ! 0) = round (of_int (baseReps (items ! 0)) * (1 + (of_int 1 - 1) * 0.05) :: rat)"
    by (rule exI)
  with len show ?thesis by simp
qed

text \<open>
  Claim C4 as stated takes \<open>round(baseReps * (1 + (day - 1) * 0.05))\<close> in exact arithmetic.
  On day 319 the item of \<open>Arms & Biceps\<close> is Hammer Curls, \<open>baseReps = 15\<close>: the exact
  product is \<open>15 * 16.9 = 253.5\<close>, which rounds to 254, while in doubles \<open>1 + 318 * 0.05\<close>
  is the double next to \<open>16.9\<close>, which lies just below it, and 15 times that is
  \<open>253.49999999999997\<close>, which \<open>Math.round\<close> takes to 253.
\<close>

theorem exact_reps_counterexample:
  "\<not> isl (getWorkoutForDay 319 None) \<and>
   ex_id (projr (getWorkoutForDay 319 None) ! 0) = ''e15'' \<and>
   baseReps (projr (getWorkoutForDay 319 None) ! 0) = 15 \<and>
   reps (projr (getWorkoutForDay 319 None) ! 0) = 253 \<and>
   (15::rat) * (1 + (319 - 1) * 0.05) = 253 + 1 / 2 \<and>
   round ((15::rat) * (1 + (319 - 1) * 0.05)) = (254::int)"
proof -
  have "getWorkoutForDay 319 None =
          Inr (map (\<lambda>cat. withReps (intensity 319)
                     (catExercises cat ! nat (319 mod int (length (catExercises cat)))))
                 CATEGORIES)"
    by (rule getWorkoutForDay_None) simp
  moreover have "round ((15::rat) * (1 + (319 - 1) * 0.05)) = (254::int)"
    by (simp add: round_def)
  ultimately show ?thesis
    by (simp add: CATEGORIES_def catExercises_Arms exercise_def withReps_def intensity_319 reps_319)
qed


section \<open>The end of a rest\<close>

text \<open>
  Claim C5. In an active session that is resting with one second left, before the last
  exercise of its plan, the timer is armed; its tick brings \<open>restTimeLeft\<close> to 0; the
  effect then takes its second branch and leaves the rest for the next exercise:
  \<open>isResting\<close> is false and the index is one more, still within the plan. After that
  the effect changes nothing further.
\<close>

theorem rest_auto_advance:
  assumes "isActive (session st)" and "isResting (session st)"
    and "restTimeLeft (session st) = 1"
    and "currentWorkout st = Inr cw"
    and "currentExerciseIndex (session st) < int (length cw) - 1"
  shows "enabled Tick st \<and>
         restTimeLeft (session (tick st)) = 0 \<and>
         enabled RestElapsed (tick st) \<and>
         restEffect (tick st) =
           st\<lparr>session := (session st)\<lparr>restTimeLeft := 0, isResting := False,
                  currentExerciseIndex := currentExerciseIndex (session st) + 1\<rparr>\<rparr> \<and>
         currentWorkout (restEffect (tick st)) = Inr cw \<and>
         currentExerciseIndex (session (restEffect (tick st))) < int (length cw) \<and>
         restEffect (restEffect (tick st)) = restEffect (tick st)"
  using assms
  by (simp add: timerArmed_def tick_def restEffect_def restElapsed_def currentWorkout_def)

theorem rest_auto_advance_witness:
  "isActive (session (exampleSession 1 0 True 1)) \<and>
   isResting (session (exampleSession 1 0 True 1)) \<and>
   restTimeLeft (session (exampleSession 1 0 True 1)) = 1 \<and>
   currentWorkout (exampleSession 1 0 True 1) = Inr (noFocusPlan 1) \<and>
   currentExerciseIndex (session (exampleSession 1 0 True 1)) < int (length (noFocusPlan 1)) - 1 \<and>
   enabled Tick (exampleSession 1 0 True 1) \<and>
   tick (exampleSession 1 0 True 1) = exampleSession 1 0 True 0 \<and>
   enabled RestElapsed (exampleSession 1 0 True 0) \<and>
   restEffect (exampleSession 1 0 True 0) = exampleSession 1 1 False 0"
proof -
  have h: "isActive (session (exampleSession 1 0 True 1))"
    "isResting (session (exampleSession 1 0 True 1))"
    "restTimeLeft (session (exampleSession 1 0 True 1)) = 1"
    "currentExerciseIndex (session (exampleSession 1 0 True 1)) < int (length (noFocusPlan 1)) - 1"
    by (simp_all add: exampleSession_def length_noFocusPlan)
  have t: "tick (exampleSession 1 0 True 1) = exampleSession 1 0 True 0"
    by (simp add: tick_def exampleSession_def)
  show ?thesis
    using rest_auto_advance [OF h(1,2,3) currentWorkout_example_1 h(4)] h
    by (simp add: t currentWorkout_example_1) (simp add: exampleSession_def)
qed


section \<open>The exercise index stays in the plan\<close>

text \<open>
  Claim C6. In every state reachable from an initial state through events the user
  interface offers, the plan of the session exists and \<open>0 \<le> currentExerciseIndex < \<close> its
  length. \<open>previousExercise\<close> at index 0 and \<open>skipToNextExercise\<close> at the last index
  return the state unchanged.
\<close>

theorem exerciseIndex_in_range:
  "(reachable st \<longrightarrow>
      (\<exists>cw. currentWorkout st = Inr cw \<and>
            0 \<le> currentExerciseIndex (session st) \<and>
            currentExerciseIndex (session st) < int (length cw))) \<and>
   (currentExerciseIndex (session st) = 0 \<longrightarrow> previousExercise st = st) \<and>
   (\<forall>cw. currentWorkout st = Inr cw \<and> currentExerciseIndex (session st) = int (length cw) - 1
      \<longrightarrow> skipToNextExercise st = Inr st)"
proof (intro conjI impI allI)
  assume "reachable st"
  then have "sessionInv st" by (rule reachable_sessionInv)
  then show "\<exists>cw. currentWorkout st = Inr cw \<and>
            0 \<le> currentExerciseIndex (session st) \<and>
            currentExerciseIndex (session st) < int (length cw)"
    by (auto simp: sessionInv_def split: sum.splits)
next
  assume "currentExerciseIndex (session st) = 0"
  then show "previousExercise st = st" by (simp add: previousExercise_def)
next
  fix cw
  assume "currentWorkout st = Inr cw \<and> currentExerciseIndex (session st) = int (length cw) - 1"
  then show "skipToNextExercise st = Inr st" by (simp add: skipToNextExercise_def)
qed

theorem exerciseIndex_in_range_witness:
  "reachable (exampleSession 1 4 False 30) \<and>
   currentWorkout (exampleSession 1 4 False 30) = Inr (noFocusPlan 1) \<and>
   currentExerciseIndex (session (exampleSession 1 4 False 30)) = int (length (noFocusPlan 1)) - 1 \<and>
   currentExerciseIndex (session (exampleSession 1 4 False 30)) < int (length (noFocusPlan 1)) \<and>
   skipToNextExercise (exampleSession 1 4 False 30) = Inr (exampleSession 1 4 False 30) \<and>
   currentExerciseIndex (session (exampleSession 1 0 False 30)) = 0 \<and>
   previousExercise (exampleSession 1 0 False 30) = exampleSession 1 0 False 30"
proof -
  have i: "currentExerciseIndex (session (exampleSession 1 4 False 30)) = int (length (noFocusPlan 1)) - 1"
    and z: "currentExerciseIndex (session (exampleSession 1 0 False 30)) = 0"
    by (simp_all add: exampleSession_def length_noFocusPlan)
  show ?thesis
    using exerciseIndex_in_range [of "exampleSession 1 4 False 30"]
      exerciseIndex_in_range [of "exampleSession 1 0 False 30"]
      reachable_day_1 i z
    by (auto simp: currentWorkout_example_1)
qed


section \<open>Entering a rest\<close>

text \<open>
  Claim C7. Before the last exercise, COMPLETE PHASE sets \<open>isResting\<close>, resets
  \<open>restTimeLeft\<close> to the configured rest duration and changes nothing else, so the index
  stays. No event at all ends in a resting session with a changed index: whenever the
  state after an event is resting, the index is what it was before. And the index
  advances only when the rest is over: in a reachable resting state the only event on
  offer that changes the index is the second branch of the rest-timer effect, which
  needs \<open>restTimeLeft = 0\<close>, adds one to the index and ends the rest; the effect changes
  the state in no other case. The interval callback counts \<open>restTimeLeft\<close> down and
  SKIP RECOVERY sets it to 0; both leave the index and the rest as they are.
\<close>

theorem rest_entered_without_advance:
  "(currentWorkout st = Inr cw \<and> currentExerciseIndex (session st) < int (length cw) - 1 \<longrightarrow>
      nextExercise now st =
        Inr (st\<lparr>session := (session st)\<lparr>isResting := True,
                                         restTimeLeft := restDuration (config st)\<rparr>\<rparr>)) \<and>
   (fire now ev st = Inr st' \<and> isResting (session st') \<longrightarrow>
      currentExerciseIndex (session st') = currentExerciseIndex (session st)) \<and>
   (reachable st \<and> isResting (session st) \<and> enabled ev st \<and> fire now ev st = Inr st' \<and>
    currentExerciseIndex (session st') \<noteq> currentExerciseIndex (session st) \<longrightarrow>
      ev = RestElapsed \<and> restTimeLeft (session st) = 0 \<and> st' = restElapsed st) \<and>
   (restEffect st \<noteq> st \<longrightarrow>
      isResting (session st) \<and> restTimeLeft (session st) = 0 \<and> restEffect st = restElapsed st) \<and>
   currentExerciseIndex (session (skipRecovery st)) = currentExerciseIndex (session st) \<and>
   isResting (session (skipRecovery st)) = isResting (session st) \<and>
   restTimeLeft (session (skipRecovery st)) = 0 \<and>
   currentExerciseIndex (session (tick st)) = currentExerciseIndex (session st) \<and>
   isResting (session (tick st)) = isResting (session st) \<and>
   currentExerciseIndex (session (restElapsed st)) = currentExerciseIndex (session st) + 1 \<and>
   \<not> isResting (session (restElapsed st))"
proof -
  have 1: "currentWorkout st = Inr cw \<and> currentExerciseIndex (session st) < int (length cw) - 1 \<longrightarrow>
      nextExercise now st =
        Inr (st\<lparr>session := (session st)\<lparr>isResting := True,
                                         restTimeLeft := restDuration (config st)\<rparr>\<rparr>)"
    by (simp add: nextExercise_rest)
  have 2: "fire now ev st = Inr st' \<and> isResting (session st') \<longrightarrow>
      currentExerciseIndex (session st') = currentExerciseIndex (session st)"
  proof
    assume a: "fire now ev st = Inr st' \<and> isResting (session st')"
    then have "handler now ev st = Inr st'"
      by (simp add: fire_def split: sum.splits)
    with a show "currentExerciseIndex (session st') = currentExerciseIndex (session st)"
      by (simp add: handler_resting_keeps_index)
  qed
  have 3: "reachable st \<and> isResting (session st) \<and> enabled ev st \<and> fire now ev st = Inr st' \<and>
    currentExerciseIndex (session st') \<noteq> currentExerciseIndex (session st) \<longrightarrow>
      ev = RestElapsed \<and> restTimeLeft (session st) = 0 \<and> st' = restElapsed st"
  proof
    assume a: "reachable st \<and> isResting (session st) \<and> enabled ev st \<and> fire now ev st = Inr st' \<and>
      currentExerciseIndex (session st') \<noteq> currentExerciseIndex (session st)"
    then have v: "view st = Workout"
      using reachable_resting_view [of st] by simp
    from a have "handler now ev st = Inr st'"
      by (simp add: fire_def split: sum.splits)
    with v a show "ev = RestElapsed \<and> restTimeLeft (session st) = 0 \<and> st' = restElapsed st"
      by (intro resting_index_change) simp_all
  qed
  have 4: "restEffect st \<noteq> st \<longrightarrow>
      isResting (session st) \<and> restTimeLeft (session st) = 0 \<and> restEffect st = restElapsed st"
    by (simp add: restEffect_def)
  have 5: "currentExerciseIndex (session (skipRecovery st)) = currentExerciseIndex (session st)"
    "isResting (session (skipRecovery st)) = isResting (session st)"
    "restTimeLeft (session (skipRecovery st)) = 0"
    "currentExerciseIndex (session (tick st)) = currentExerciseIndex (session st)"
    "isResting (session (tick st)) = isResting (session st)"
    "currentExerciseIndex (session (restElapsed st)) = currentExerciseIndex (session st) + 1"
    "\<not> isResting (session (restElapsed st))"
    by (simp_all add: skipRecovery_def tick_def restElapsed_def)
  show ?thesis
    by (intro conjI 1 2 3 4 5)
qed

theorem rest_entered_without_advance_witness:
  "currentWorkout (exampleSession 1 0 False 30) = Inr (noFocusPlan 1) \<and>
   currentExerciseIndex (session (exampleSession 1 0 False 30)) < int (length (noFocusPlan 1)) - 1 \<and>
   nextExercise 5000 (exampleSession 1 0 False 30) = Inr (exampleSession 1 0 True 30) \<and>
   fire 5000 CompletePhase (exampleSession 1 0 False 30) = Inr (exampleSession 1 0 True 30) \<and>
   isResting (session (exampleSession 1 0 True 30)) \<and>
   currentExerciseIndex (session (exampleSession 1 0 True 30)) =
     currentExerciseIndex (session (exampleSession 1 0 False 30)) \<and>
   reachable (exampleSession 1 0 True 0) \<and>
   isResting (session (exampleSession 1 0 True 0)) \<and>
   enabled RestElapsed (exampleSession 1 0 True 0) \<and>
   fire 5000 RestElapsed (exampleSession 1 0 True 0) = Inr (exampleSession 1 1 False 0) \<and>
   currentExerciseIndex (session (exampleSession 1 1 False 0)) \<noteq>
     currentExerciseIndex (session (exampleSession 1 0 True 0)) \<and>
   restTimeLeft (session (exampleSession 1 0 True 0)) = 0 \<and>
   exampleSession 1 1 False 0 = restElapsed (exampleSession 1 0 True 0) \<and>
   restEffect (exampleSession 1 0 True 0) \<noteq> exampleSession 1 0 True 0 \<and>
   restEffect (exampleSession 1 0 True 0) = restElapsed (exampleSession 1 0 True 0)"
proof -
  let ?a = "exampleSession 1 0 False 30"
  let ?b = "exampleSession 1 0 True 30"
  let ?r = "exampleSession 1 0 True 0"
  let ?r' = "exampleSession 1 1 False 0"
  note A = rest_entered_without_advance [where st = ?a and cw = "noFocusPlan 1"
      and now = 5000 and ev = CompletePhase and st' = ?b]
  note R = rest_entered_without_advance [where st = ?r and now = 5000 and ev = RestElapsed and st' = ?r']
  have i: "currentExerciseIndex (session ?a) < int (length (noFocusPlan 1)) - 1"
    by (simp add: exampleSession_def length_noFocusPlan)
  have e: "?a\<lparr>session := (session ?a)
             \<lparr>isResting := True, restTimeLeft := restDuration (config ?a)\<rparr>\<rparr> = ?b"
    by (simp add: exampleSession_def INITIAL_CONFIG_def)
  have "nextExercise 5000 ?a =
          Inr (?a\<lparr>session := (session ?a)
                 \<lparr>isResting := True, restTimeLeft := restDuration (config ?a)\<rparr>\<rparr>)"
    by (rule mp [OF A [THEN conjunct1]]) (intro conjI currentWorkout_example_1 i)
  then have n: "nextExercise 5000 ?a = Inr ?b"
    by (simp only: e)
  then have f: "fire 5000 CompletePhase ?a = Inr ?b"
    by (simp add: fire_def currentWorkout_example_1)
  have r: "isResting (session ?b)"
    by (simp add: exampleSession_def)
  have k: "currentExerciseIndex (session ?b) = currentExerciseIndex (session ?a)"
    by (rule mp [OF A [THEN conjunct2, THEN conjunct1]]) (intro conjI f r)
  have rs: "isResting (session ?r)"
    and en: "enabled RestElapsed ?r"
    and ne: "currentExerciseIndex (session ?r') \<noteq> currentExerciseIndex (session ?r)"
    by (simp_all add: exampleSession_def timerArmed_def)
  have "RestElapsed = RestElapsed \<and> restTimeLeft (session ?r) = 0 \<and> ?r' = restElapsed ?r"
    by (rule mp [OF R [THEN conjunct2, THEN conjunct2, THEN conjunct1]])
      (intro conjI reachable_resting_0 rs en fire_RestElapsed_example ne)
  then have z: "restTimeLeft (session ?r) = 0" "?r' = restElapsed ?r"
    by simp_all
  have d: "restEffect ?r \<noteq> ?r"
    unfolding restEffect_example by (simp add: exampleSession_def)
  have "isResting (session ?r) \<and> restTimeLeft (session ?r) = 0 \<and> restEffect ?r = restElapsed ?r"
    by (rule mp [OF R [THEN conjunct2, THEN conjunct2, THEN conjunct2, THEN conjunct1] d])
  then have y: "restEffect ?r = restElapsed ?r"
    by simp
  show ?thesis
    by (intro conjI currentWorkout_example_1 i n f r k reachable_resting_0 rs en
        fire_RestElapsed_example ne z d y)
qed


section \<open>Recording a completed day\<close>

text \<open>
  Claim C8. Recording a day twice gives the same list, hence the same size and the same
  members, as recording it once. The members after recording \<open>d\<close> are those before plus
  \<open>d\<close>; recording a day that is already a member leaves the members unchanged, and
  leaves the list itself unchanged when it has no duplicates.
\<close>

theorem recordCompletion_idempotent:
  "recordCompletion (recordCompletion L d) d = recordCompletion L d \<and>
   length (recordCompletion (recordCompletion L d) d) = length (recordCompletion L d) \<and>
   set (recordCompletion (recordCompletion L d) d) = set (recordCompletion L d) \<and>
   set (recordCompletion L d) = insert d (set L) \<and>
   (d \<in> set L \<longrightarrow> set (recordCompletion L d) = set L) \<and>
   (d \<in> set L \<and> distinct L \<longrightarrow> recordCompletion L d = L)"
proof -
  define L' where "L' = recordCompletion L d"
  have d: "distinct L'" and m: "d \<in> set L'"
    by (simp_all add: L'_def distinct_recordCompletion set_recordCompletion)
  have "recordCompletion L' d = Set_add (new_Set L') d"
    by (rule recordCompletion_Set_add)
  also have "\<dots> = Set_add L' d"
    using d by (simp add: new_Set_distinct)
  also have "\<dots> = L'"
    using m by (simp add: Set_add_def)
  finally have 1: "recordCompletion (recordCompletion L d) d = recordCompletion L d"
    by (simp add: L'_def)
  have 2: "recordCompletion L d = L" if "d \<in> set L \<and> distinct L"
    using that by (simp add: recordCompletion_Set_add new_Set_distinct Set_add_def)
  from 1 2 show ?thesis
    by (auto simp: set_recordCompletion)
qed

theorem recordCompletion_idempotent_witness:
  "(2::int) \<in> set [1, 2] \<and> distinct [1, 2 :: int] \<and>
   recordCompletion [1, 2] 2 = [1, 2] \<and>
   recordCompletion (recordCompletion [1] 2) 2 = recordCompletion [1] 2"
  using recordCompletion_idempotent [of "[1, 2]" 2] recordCompletion_idempotent [of "[1]" 2]
  by simp


section \<open>Phases\<close>

text \<open>
  Claim C9. For a list of completed days (an array, so shorter than \<open>2^32\<close>):
  \<open>currentPhase\<close> is the length divided by 30, rounded down, plus 1; \<open>phaseDayOffset\<close> is
  \<open>(currentPhase - 1) * 30\<close>; \<open>phaseProgress\<close> counts the entries \<open>d\<close> with
  \<open>phaseDayOffset < d \<le> phaseDayOffset + 30\<close>. Without duplicates the length is the
  number of completed days and \<open>phaseProgress\<close> the number of those in that range. When
  the completed days are exactly 1 to 35, the phase is 2 and the progress 5.
\<close>

theorem phase_bookkeeping:
  assumes "length cd < 2 ^ 32"
  shows "currentPhase cd = int (length cd) div 30 + 1 \<and>
         phaseDayOffset cd = (currentPhase cd - 1) * 30 \<and>
         phaseProgress cd =
           length (filter (\<lambda>d. phaseDayOffset cd < d \<and> d \<le> phaseDayOffset cd + 30) cd) \<and>
         (distinct cd \<longrightarrow>
            length cd = card (set cd) \<and>
            phaseProgress cd =
              card {d \<in> set cd. phaseDayOffset cd < d \<and> d \<le> phaseDayOffset cd + 30}) \<and>
         (distinct cd \<and> set cd = {1..35} \<longrightarrow> currentPhase cd = 2 \<and> phaseProgress cd = 5)"
proof -
  have "length cd < 2 ^ 53"
    using assms by (rule less_trans) simp
  then have 1: "currentPhase cd = int (length cd) div 30 + 1"
    by (rule currentPhase_eq)
  have 3: "phaseProgress cd =
           length (filter (\<lambda>d. phaseDayOffset cd < d \<and> d \<le> phaseDayOffset cd + 30) cd)"
    by (simp add: phaseProgress_def)
  have 4: "length cd = card (set cd) \<and>
           phaseProgress cd =
              card {d \<in> set cd. phaseDayOffset cd < d \<and> d \<le> phaseDayOffset cd + 30}"
    if "distinct cd"
    using that by (simp add: 3 distinct_card distinct_length_filter Collect_conj_eq Int_commute)
  have 5: "currentPhase cd = 2 \<and> phaseProgress cd = 5" if h: "distinct cd \<and> set cd = {1..35}"
  proof -
    have len: "length cd = 35"
      using h 4 by simp
    then have ph: "currentPhase cd = 2" by (simp add: 1)
    then have off: "phaseDayOffset cd = 30" by (simp add: phaseDayOffset_def)
    have "{d \<in> set cd. phaseDayOffset cd < d \<and> d \<le> phaseDayOffset cd + 30} = {31..35}"
      using h by (auto simp: off)
    then have "phaseProgress cd = 5"
      using h 4 by simp
    with ph show ?thesis by simp
  qed
  have 2: "phaseDayOffset cd = (currentPhase cd - 1) * 30"
    by (simp add: phaseDayOffset_def)
  from 1 2 3 4 5 show ?thesis
    by blast
qed

theorem phase_bookkeeping_witness:
  "length [1..35] < 2 ^ 32 \<and> distinct [1..35] \<and> set [1..35] = {1..35} \<and>
   currentPhase [1..35] = 2 \<and> phaseDayOffset [1..35] = 30 \<and> phaseProgress [1..35] = 5"
proof -
  have h: "length [1..35] < 2 ^ 32" by simp
  have d: "distinct [1..35] \<and> set [1..35] = {1..35}" by simp
  from phase_bookkeeping [OF h] d
  have r: "currentPhase [1..35] = 2 \<and> phaseProgress [1..35] = 5" by blast
  then have "phaseDayOffset [1..35] = 30" by (simp add: phaseDayOffset_def)
  with h d r show ?thesis by blast
qed


section \<open>What completion leaves of the session\<close>

text \<open>
  Claim C10. Completing the last exercise changes only \<open>isActive\<close> in the session:
  \<open>currentDay\<close>, \<open>currentExerciseIndex\<close>, \<open>isResting\<close>, \<open>restTimeLeft\<close>, \<open>startTime\<close> and
  \<open>focusCategory\<close> are what they were, and the view is the summary, which shows
  \<open>currentDay\<close>.
\<close>

theorem completion_frame:
  assumes "currentWorkout st = Inr cw"
    and "currentExerciseIndex (session st) = int (length cw) - 1"
  shows "\<exists>st'. nextExercise now st = Inr st' \<and>
           session st' = (session st)\<lparr>isActive := False\<rparr> \<and>
           currentDay (session st') = currentDay (session st) \<and>
           currentExerciseIndex (session st') = currentExerciseIndex (session st) \<and>
           isResting (session st') = isResting (session st) \<and>
           restTimeLeft (session st') = restTimeLeft (session st) \<and>
           startTime (session st') = startTime (session st) \<and>
           focusCategory (session st') = focusCategory (session st) \<and>
           view st' = Summary"
proof -
  have "\<not> currentExerciseIndex (session st) < int (length cw) - 1"
    using assms(2) by simp
  note ne = nextExercise_last [OF assms(1) this, of now]
  show ?thesis
    unfolding ne by simp
qed

theorem completion_frame_witness:
  "currentWorkout (exampleSession 7 4 False 30) = Inr (noFocusPlan 7) \<and>
   currentExerciseIndex (session (exampleSession 7 4 False 30)) = int (length (noFocusPlan 7)) - 1 \<and>
   (\<exists>st'. nextExercise 200000 (exampleSession 7 4 False 30) = Inr st' \<and>
      session st' = (session (exampleSession 7 4 False 30))\<lparr>isActive := False\<rparr> \<and>
      currentDay (session st') = 7 \<and> currentExerciseIndex (session st') = 4 \<and>
      view st' = Summary)"
proof -
  have i: "currentExerciseIndex (session (exampleSession 7 4 False 30)) = int (length (noFocusPlan 7)) - 1"
    by (simp add: exampleSession_def length_noFocusPlan)
  obtain st' where "nextExercise 200000 (exampleSession 7 4 False 30) = Inr st'"
    "session st' = (session (exampleSession 7 4 False 30))\<lparr>isActive := False\<rparr>"
    "currentDay (session st') = 7" "currentExerciseIndex (session st') = 4"
    "view st' = Summary"
    using completion_frame [OF currentWorkout_example_7 i, of 200000]
    by (auto simp: exampleSession_def)
  then have "\<exists>st'. nextExercise 200000 (exampleSession 7 4 False 30) = Inr st' \<and>
      session st' = (session (exampleSession 7 4 False 30))\<lparr>isActive := False\<rparr> \<and>
      currentDay (session st') = 7 \<and> currentExerciseIndex (session st') = 4 \<and>
      view st' = Summary"
    by blast
  then show ?thesis
    using i currentWorkout_example_7 [of 4 False 30] by simp
qed

end
